theory Spec2Isabelle
  imports Main
begin

section \<open>Strings\<close>

text \<open>
  Python strings are modelled as \<^typ>\<open>string\<close>. The model covers ASCII text: a character
  outside ASCII is neither a letter, a digit nor white space here, and \<open>lower\<close> and
  \<open>title\<close> leave it unchanged.
\<close>

definition ascii_lowercase :: string where
  "ascii_lowercase = ''abcdefghijklmnopqrstuvwxyz''"

definition ascii_uppercase :: string where
  "ascii_uppercase = ''ABCDEFGHIJKLMNOPQRSTUVWXYZ''"

definition digits :: string where
  "digits = ''0123456789''"

definition is_lower :: "char \<Rightarrow> bool" where
  "is_lower c = (c \<in> set ascii_lowercase)"

definition is_upper :: "char \<Rightarrow> bool" where
  "is_upper c = (c \<in> set ascii_uppercase)"

definition is_alpha :: "char \<Rightarrow> bool" where
  "is_alpha c = (is_lower c \<or> is_upper c)"

definition is_digit :: "char \<Rightarrow> bool" where
  "is_digit c = (c \<in> set digits)"

definition is_alnum :: "char \<Rightarrow> bool" where
  "is_alnum c = (is_alpha c \<or> is_digit c)"

text \<open>The characters \<open>str.strip()\<close> removes: space, tab, line feed, vertical tab, form feed,
  carriage return, and the four ASCII separators.\<close>

definition is_space :: "char \<Rightarrow> bool" where
  "is_space c = (c \<in> {CHR '' '', CHR 0x09, CHR 0x0A, CHR 0x0B, CHR 0x0C, CHR 0x0D,
                       CHR 0x1C, CHR 0x1D, CHR 0x1E, CHR 0x1F})"

definition to_lower :: "char \<Rightarrow> char" where
  "to_lower c = (case map_of (zip ascii_uppercase ascii_lowercase) c of Some l \<Rightarrow> l | None \<Rightarrow> c)"

definition to_upper :: "char \<Rightarrow> char" where
  "to_upper c = (case map_of (zip ascii_lowercase ascii_uppercase) c of Some u \<Rightarrow> u | None \<Rightarrow> c)"

definition lower :: "string \<Rightarrow> string" where
  "lower s = map to_lower s"

definition strip :: "string \<Rightarrow> string" where
  "strip s = rev (dropWhile is_space (rev (dropWhile is_space s)))"

text \<open>\<open>sub in s\<close>\<close>

fun contains :: "string \<Rightarrow> string \<Rightarrow> bool" where
  "contains sub [] = (sub = [])"
| "contains sub (c # s) = (take (length sub) (c # s) = sub \<or> contains sub s)"

definition startswith :: "string \<Rightarrow> string \<Rightarrow> bool" where
  "startswith s pre = (take (length pre) s = pre)"

text \<open>\<open>s.split(sep)\<close> for a non-empty separator; \<open>cur\<close> is the piece being read.\<close>

function split_from :: "string \<Rightarrow> string \<Rightarrow> string \<Rightarrow> string list" where
  "split_from sep cur [] = [cur]"
| "split_from sep cur (c # s) =
     (if sep \<noteq> [] \<and> take (length sep) (c # s) = sep
      then cur # split_from sep [] (drop (length sep - 1) s)
      else split_from sep (cur @ [c]) s)"
  by pat_completeness auto
termination
  by (relation "measure (\<lambda>(sep, cur, s). length s)") auto

definition str_split :: "string \<Rightarrow> string \<Rightarrow> string list" where
  "str_split s sep = split_from sep [] s"

text \<open>\<open>sep.join(xs)\<close>\<close>

fun join :: "string \<Rightarrow> string list \<Rightarrow> string" where
  "join sep [] = []"
| "join sep [x] = x"
| "join sep (x # y # ys) = x @ sep @ join sep (y # ys)"

text \<open>\<open>str.title()\<close>: a cased character is upper-cased after an uncased one and lower-cased
  after a cased one.\<close>

fun title_from :: "bool \<Rightarrow> string \<Rightarrow> string" where
  "title_from previous_is_cased [] = []"
| "title_from previous_is_cased (c # s) =
     (if is_alpha c
      then (if previous_is_cased then to_lower c else to_upper c) # title_from True s
      else c # title_from False s)"

definition title :: "string \<Rightarrow> string" where
  "title s = title_from False s"

text \<open>\<open>str(n)\<close> for a natural number.\<close>

function str_nat :: "nat \<Rightarrow> string" where
  "str_nat n = (if n < 10 then [digits ! n] else str_nat (n div 10) @ [digits ! (n mod 10)])"
  by pat_completeness auto
termination
  by (relation "measure id") auto

declare str_nat.simps [simp del]

section \<open>Regular expressions\<close>

text \<open>
  The patterns of the program are sequences of character classes, each taken once or
  repeated greedily at least \<open>n\<close> times (\<open>+\<close> is \<open>Rep P 1\<close>, \<open>{2,}\<close> is \<open>Rep P 2\<close>), the
  word boundary \<open>\b\<close> and the end anchor \<open>$\<close>. \<open>re_match\<close> is the backtracking matcher
  of Python's \<open>re\<close> on such a sequence: a repetition first takes one more character and
  gives it back only when the rest of the pattern fails. It returns the text each atom
  consumed. \<open>prev\<close> is the character before the current position, which \<open>\b\<close> looks at.
\<close>

datatype atom = One "char \<Rightarrow> bool" | Rep "char \<Rightarrow> bool" nat | WordB | Eos

definition is_word :: "char \<Rightarrow> bool" where
  "is_word c = (is_alnum c \<or> c = CHR ''_'')"

fun word_at :: "char option \<Rightarrow> bool" where
  "word_at None = False"
| "word_at (Some c) = is_word c"

fun next_char :: "string \<Rightarrow> char option" where
  "next_char [] = None"
| "next_char (c # s) = Some c"

fun re_match :: "atom list \<Rightarrow> char option \<Rightarrow> string \<Rightarrow> string list option" where
  "re_match [] prev s = Some []"
| "re_match (One P # as) prev [] = None"
| "re_match (One P # as) prev (c # s) =
     (if P c then map_option (Cons [c]) (re_match as (Some c) s) else None)"
| "re_match (Rep P n # as) prev [] =
     (if n = 0 then map_option (Cons []) (re_match as prev []) else None)"
| "re_match (Rep P n # as) prev (c # s) =
     (case (if P c then re_match (Rep P (n - 1) # as) (Some c) s else None) of
        Some (p # ps) \<Rightarrow> Some ((c # p) # ps)
      | _ \<Rightarrow> if n = 0 then map_option (Cons []) (re_match as prev (c # s)) else None)"
| "re_match (WordB # as) prev s =
     (if word_at prev \<noteq> word_at (next_char s)
      then map_option (Cons []) (re_match as prev s) else None)"
| "re_match (Eos # as) prev s =
     (if s = [] \<or> s = [CHR 0x0A]
      then map_option (Cons []) (re_match as prev s) else None)"

text \<open>The character before the position reached after reading \<open>p\<close>.\<close>

fun prev_after :: "char option \<Rightarrow> string \<Rightarrow> char option" where
  "prev_after prev [] = prev"
| "prev_after prev (c # p) = prev_after (Some c) p"

text \<open>\<open>re.search\<close>: the match at the leftmost position that has one.\<close>

fun re_search :: "atom list \<Rightarrow> char option \<Rightarrow> string \<Rightarrow> string list option" where
  "re_search as prev [] = re_match as prev []"
| "re_search as prev (c # s) =
     (case re_match as prev (c # s) of
        Some ps \<Rightarrow> Some ps
      | None \<Rightarrow> re_search as (Some c) s)"

text \<open>\<open>re.findall\<close> for a pattern without groups: the matched texts, left to right,
  not overlapping.\<close>

function re_findall :: "atom list \<Rightarrow> char option \<Rightarrow> string \<Rightarrow> string list" where
  "re_findall as prev [] = (case re_match as prev [] of Some ps \<Rightarrow> [concat ps] | None \<Rightarrow> [])"
| "re_findall as prev (c # s) =
     (case re_match as prev (c # s) of
        None \<Rightarrow> re_findall as (Some c) s
      | Some ps \<Rightarrow>
          (if concat ps = [] then [] # re_findall as (Some c) s
           else concat ps #
                re_findall as (Some (last (concat ps))) (drop (length (concat ps) - 1) s)))"
  by pat_completeness auto
termination
  by (relation "measure (\<lambda>(as, prev, s). length s)") auto

text \<open>A literal text as a pattern.\<close>

definition lit :: "string \<Rightarrow> atom list" where
  "lit s = map (\<lambda>c. One (\<lambda>x. x = c)) s"

section \<open>Validator: email format\<close>

text \<open>\<open>^[a-zA-Z0-9._%+-]+@[a-zA-Z0-9.-]+\.[a-zA-Z]{2,}$\<close>, used with \<open>re.match\<close>, which
  matches at the start of the text.\<close>

definition email_local_char :: "char \<Rightarrow> bool" where
  "email_local_char c = (is_alnum c \<or> c \<in> set ''._%+-'')"

definition email_domain_char :: "char \<Rightarrow> bool" where
  "email_domain_char c = (is_alnum c \<or> c \<in> set ''.-'')"

definition email_format_pattern :: "atom list" where
  "email_format_pattern =
     [Rep email_local_char 1, One (\<lambda>c. c = CHR ''@''), Rep email_domain_char 1,
      One (\<lambda>c. c = CHR ''.''), Rep is_alpha 2, Eos]"

definition validate_email_format :: "string \<Rightarrow> bool" where
  "validate_email_format email = (re_match email_format_pattern None email \<noteq> None)"

section \<open>Data model and environment\<close>

text \<open>
  A Python dictionary with text keys and values is a map. \<open>d[k]\<close> raises \<open>KeyError\<close> for
  a missing key, \<open>d.get(k, default)\<close> does not.
\<close>

type_synonym dict = "string \<rightharpoonup> string"

type_synonym headers = "(string \<times> string) list"

text \<open>The exceptions of the program. \<open>RequestException\<close> stands for the exceptions of the
  \<open>requests\<close> library (timeout, connection error), \<open>HTTPError\<close> is the subclass that
  \<open>raise_for_status\<close> raises, \<open>OtherError\<close> is any other \<open>Exception\<close>.\<close>

datatype exn =
  RequestException string | HTTPError string | IndexError | KeyError string | OtherError string

fun str_exn :: "exn \<Rightarrow> string" where
  "str_exn (RequestException m) = m"
| "str_exn (HTTPError m) = m"
| "str_exn IndexError = ''list index out of range''"
| "str_exn (KeyError k) = [CHR 0x27] @ k @ [CHR 0x27]"
| "str_exn (OtherError m) = m"

fun is_RequestException :: "exn \<Rightarrow> bool" where
  "is_RequestException (RequestException m) = True"
| "is_RequestException (HTTPError m) = True"
| "is_RequestException e = False"

definition getitem :: "dict \<Rightarrow> string \<Rightarrow> exn + string" where
  "getitem d k = (case d k of None \<Rightarrow> Inl (KeyError k) | Some v \<Rightarrow> Inr v)"

definition get_default :: "dict \<Rightarrow> string \<Rightarrow> string \<Rightarrow> string" where
  "get_default d k dflt = (case d k of None \<Rightarrow> dflt | Some v \<Rightarrow> v)"

text \<open>
  The parsed documents are given by the answers to the queries the program puts to
  BeautifulSoup. An \<open>anchor\<close> is an \<open>a\<close> tag: \<open>href\<close> is \<open>link.get('href')\<close> and \<open>get_text\<close>
  is \<open>link.get_text(strip=True)\<close>. An \<open>element\<close> is a sibling tag with the result of
  \<open>element.find('a')\<close>. A \<open>text_node\<close> is a text that matched a keyword:
  \<open>parent_next_siblings\<close> is \<open>None\<close> when \<open>section.parent\<close> is, and otherwise
  \<open>parent.find_next_siblings()\<close>.
\<close>

record anchor =
  href :: "string option"
  get_text :: string

record element =
  find_a :: "anchor option"

record text_node =
  parent_next_siblings :: "element list option"

text \<open>
  The venue \<open>div\<close> of a card: \<open>venue_a\<close> is the stripped text of its first link, when it
  has one, \<open>venue_text\<close> is its own stripped text. A card: \<open>date_td\<close> is the stripped text
  of the \<open>text-dark\<close> cell, \<open>clickable_td\<close> the \<open>onclick\<close> attribute of the first cell that
  has one, \<open>venue\<close> the \<open>div\<close> of class \<open>venue\<close>.
\<close>

record venue_div =
  venue_a :: "string option"
  venue_text :: string

record card =
  date_td :: "string option"
  clickable_td :: "string option"
  venue :: "venue_div option"

text \<open>
  A parsed page: \<open>event_cards\<close> are the \<open>tr\<close> rows whose class contains \<open>event-card\<close>,
  \<open>find_all_text keyword\<close> the texts matching the keyword without regard to case,
  \<open>markup\<close> is \<open>str(soup)\<close>, and \<open>contact_links\<close> are the links whose text matches
  \<open>contact|about|organizer\<close>.
\<close>

record soup =
  event_cards :: "card list"
  find_all_text :: "string \<Rightarrow> text_node list"
  markup :: string
  contact_links :: "anchor list"

record response =
  status_code :: nat
  reason :: string
  url :: string
  content :: soup

text \<open>
  What the program gets from outside. The answer of the network to a request may depend on
  how many requests and pauses went before it (the first argument). \<open>urljoin\<close> of
  \<open>urllib.parse\<close> is not modelled; \<open>fs_open\<close> says whether opening a file for writing raises.
\<close>

record env =
  http_get :: "nat \<Rightarrow> string \<Rightarrow> headers \<Rightarrow> exn + response"
  http_head :: "nat \<Rightarrow> string \<Rightarrow> headers \<Rightarrow> exn + nat"
  urljoin :: "string \<Rightarrow> string \<Rightarrow> exn + string"
  now :: string
  fs_open :: "string \<Rightarrow> exn option"

text \<open>The configuration panel of the module.\<close>

record config =
  events_to_scrape :: int
  use_stealth_mode :: bool
  request_delay :: nat
  output_csv :: string
  validation_log :: string

definition default_config :: config where
  "default_config =
     \<lparr>events_to_scrape = 10, use_stealth_mode = True, request_delay = 2,
      output_csv = ''verified_event_organizers.csv'',
      validation_log = ''data_validation_log.txt''\<rparr>"

text \<open>
  The effects: the requests and pauses in the order they were issued, the lines printed,
  and the files written (a text file as its lines, the dataset as its rows of fields; the
  quoting of the \<open>csv\<close> module is not modelled). Of the printed lines, the model keeps the
  reports of a failure and the configuration banner of the main block, without the
  pictograph and the indentation that start them; progress and summary lines are left out.
\<close>

datatype event = Get string headers nat | Head string headers nat | Sleep nat

datatype file_content = Text "string list" | Csv "string list list"

record io_state =
  trace :: "event list"
  console :: "string list"
  files :: "string \<rightharpoonup> file_content"

type_synonym 'a io = "io_state \<Rightarrow> (exn + 'a) \<times> io_state"

definition py_print :: "string \<Rightarrow> io_state \<Rightarrow> io_state" where
  "py_print line st = st\<lparr>console := console st @ [line]\<rparr>"

definition sleep :: "nat \<Rightarrow> io_state \<Rightarrow> io_state" where
  "sleep seconds st = st\<lparr>trace := trace st @ [Sleep seconds]\<rparr>"

definition requests_get :: "env \<Rightarrow> string \<Rightarrow> headers \<Rightarrow> nat \<Rightarrow> response io" where
  "requests_get e u hs timeout st =
     (http_get e (length (trace st)) u hs, st\<lparr>trace := trace st @ [Get u hs timeout]\<rparr>)"

definition requests_head :: "env \<Rightarrow> string \<Rightarrow> headers \<Rightarrow> nat \<Rightarrow> nat io" where
  "requests_head e u hs timeout st =
     (http_head e (length (trace st)) u hs, st\<lparr>trace := trace st @ [Head u hs timeout]\<rparr>)"

text \<open>\<open>Response.raise_for_status\<close> raises for a status from 400 to 599 only.\<close>

definition raise_for_status :: "response \<Rightarrow> exn + unit" where
  "raise_for_status r =
     (if 400 \<le> status_code r \<and> status_code r < 500
      then Inl (HTTPError (str_nat (status_code r) @ '' Client Error: '' @ reason r @
                           '' for url: '' @ url r))
      else if 500 \<le> status_code r \<and> status_code r < 600
      then Inl (HTTPError (str_nat (status_code r) @ '' Server Error: '' @ reason r @
                           '' for url: '' @ url r))
      else Inr ())"

section \<open>Fetcher and validator\<close>

definition get_stealth_headers :: headers where
  "get_stealth_headers =
     [(''User-Agent'', ''Mozilla/5.0 (Windows NT 10.0; Win64; x64) AppleWebKit/537.36 (KHTML, like Gecko) Chrome/120.0.0.0 Safari/537.36''),
      (''Accept'', ''text/html,application/xhtml+xml,application/xml;q=0.9,image/avif,image/webp,image/apng,*/*;q=0.8''),
      (''Accept-Language'', ''en-US,en;q=0.9''),
      (''Accept-Encoding'', ''gzip, deflate, br''),
      (''DNT'', ''1''),
      (''Connection'', ''keep-alive''),
      (''Upgrade-Insecure-Requests'', ''1''),
      (''Sec-Fetch-Dest'', ''document''),
      (''Sec-Fetch-Mode'', ''navigate''),
      (''Sec-Fetch-Site'', ''none''),
      (''Sec-Fetch-User'', ''?1''),
      (''Cache-Control'', ''max-age=0''),
      (''Referer'', ''https://google.com'')]"

text \<open>The bare \<open>except\<close> of \<open>validate_url\<close> turns every exception of the request into
  \<open>False\<close>.\<close>

definition validate_url :: "env \<Rightarrow> string \<Rightarrow> bool io" where
  "validate_url e u st =
     (case requests_head e u get_stealth_headers 10 st of
        (Inr code, st') \<Rightarrow> (Inr (code \<in> set [200, 301, 302]), st')
      | (Inl ex, st') \<Rightarrow> (Inr False, st'))"

section \<open>Organizer extractor\<close>

definition organizer_keywords :: "string list" where
  "organizer_keywords =
     [''organizer'', ''organised by'', ''organiser'', ''hosted by'', ''presented by'']"

text \<open>\<open>link.get_text(strip=True) or href.split('//')[1].split('/')[0]\<close>\<close>

definition link_name :: "anchor \<Rightarrow> string \<Rightarrow> exn + string" where
  "link_name link h =
     (if get_text link \<noteq> [] then Inr (get_text link)
      else (case str_split h ''//'' of
              x # y # zs \<Rightarrow> (case str_split y ''/'' of d # ds \<Rightarrow> Inr d | [] \<Rightarrow> Inl IndexError)
            | _ \<Rightarrow> Inl IndexError))"

text \<open>
  Method 1. The three loops return the exception raised, if any, with the dictionary as it
  is at that point. \<open>scan_elements\<close> is the loop over the siblings, which the \<open>break\<close>
  leaves; \<open>scan_sections\<close> the loop over the first two matches of a keyword;
  \<open>scan_keywords\<close> the loop over the keywords.
\<close>

fun scan_elements :: "element list \<Rightarrow> dict \<Rightarrow> exn option \<times> dict" where
  "scan_elements [] info = (None, info)"
| "scan_elements (elem # rest) info =
     (case find_a elem of
        None \<Rightarrow> scan_elements rest info
      | Some link \<Rightarrow>
          (case href link of
             None \<Rightarrow> scan_elements rest info
           | Some h \<Rightarrow>
               if h \<noteq> [] \<and> \<not> startswith h ''mailto:'' \<and> contains ''http'' h
               then (case link_name link h of
                       Inl ex \<Rightarrow> (Some ex, info(''organiser_website'' \<mapsto> h))
                     | Inr name \<Rightarrow>
                         (None, info(''organiser_website'' \<mapsto> h, ''organiser_name'' \<mapsto> name,
                                     ''verification_status'' \<mapsto> ''Website_Found'')))
               else scan_elements rest info))"

fun scan_sections :: "text_node list \<Rightarrow> dict \<Rightarrow> exn option \<times> dict" where
  "scan_sections [] info = (None, info)"
| "scan_sections (sec # rest) info =
     (case parent_next_siblings sec of
        None \<Rightarrow> scan_sections rest info
      | Some siblings \<Rightarrow>
          (case scan_elements (take 3 siblings) info of
             (Some ex, info') \<Rightarrow> (Some ex, info')
           | (None, info') \<Rightarrow> scan_sections rest info'))"

fun scan_keywords :: "soup \<Rightarrow> string list \<Rightarrow> dict \<Rightarrow> exn option \<times> dict" where
  "scan_keywords page [] info = (None, info)"
| "scan_keywords page (keyword # rest) info =
     (case scan_sections (take 2 (find_all_text page keyword)) info of
        (Some ex, info') \<Rightarrow> (Some ex, info')
      | (None, info') \<Rightarrow> scan_keywords page rest info')"

definition method1 :: "soup \<Rightarrow> dict \<Rightarrow> exn option \<times> dict" where
  "method1 page info = scan_keywords page organizer_keywords info"

text \<open>Method 2: \<open>\b[A-Za-z0-9._%+-]+@[A-Za-z0-9.-]+\.[A-Z|a-z]{2,}\b\<close> over the markup. The
  last class of the pattern contains the bar.\<close>

definition email_pattern :: "atom list" where
  "email_pattern =
     [WordB, Rep email_local_char 1, One (\<lambda>c. c = CHR ''@''), Rep email_domain_char 1,
      One (\<lambda>c. c = CHR ''.''), Rep (\<lambda>c. is_alpha c \<or> c = CHR ''|'') 2, WordB]"

definition social_fragments :: "string list" where
  "social_fragments = [''facebook'', ''twitter'', ''linkedin'', ''google'', ''youtube'']"

definition is_social :: "string \<Rightarrow> bool" where
  "is_social e = list_ex (\<lambda>x. contains x (lower e)) social_fragments"

definition method2 :: "soup \<Rightarrow> dict \<Rightarrow> dict" where
  "method2 page info =
     (let emails = re_findall email_pattern None (markup page) in
      if emails \<noteq> [] then
        (case filter (\<lambda>e. \<not> is_social e) emails of
           first # others \<Rightarrow>
             info(''organiser_email'' \<mapsto> first, ''verification_status'' \<mapsto> ''Email_Found'')
         | [] \<Rightarrow> info)
      else info)"

text \<open>Method 3: the loop over the first two contact links.\<close>

fun probe_links ::
  "env \<Rightarrow> string \<Rightarrow> anchor list \<Rightarrow> dict \<Rightarrow> io_state \<Rightarrow> (exn option \<times> dict) \<times> io_state" where
  "probe_links e event_url [] info st = ((None, info), st)"
| "probe_links e event_url (link # rest) info st =
     (case href link of
        None \<Rightarrow> probe_links e event_url rest info st
      | Some h \<Rightarrow>
          if h \<noteq> [] \<and> \<not> startswith h ''mailto:''
          then (case urljoin e event_url h of
                  Inl ex \<Rightarrow> ((Some ex, info), st)
                | Inr full_url \<Rightarrow>
                    (case validate_url e full_url st of
                       (Inl ex, st') \<Rightarrow> ((Some ex, info), st')
                     | (Inr True, st') \<Rightarrow>
                         ((None, info(''organiser_website'' \<mapsto> full_url,
                                      ''verification_status'' \<mapsto> ''Contact_Page_Found'')), st')
                     | (Inr False, st') \<Rightarrow> probe_links e event_url rest info st'))
          else probe_links e event_url rest info st)"

definition method3 ::
  "env \<Rightarrow> string \<Rightarrow> soup \<Rightarrow> dict \<Rightarrow> io_state \<Rightarrow> (exn option \<times> dict) \<times> io_state" where
  "method3 e event_url page info st = probe_links e event_url (take 2 (contact_links page)) info st"

definition initial_organizer_info :: dict where
  "initial_organizer_info =
     [''organiser_name'' \<mapsto> ''N/A'', ''organiser_website'' \<mapsto> ''N/A'',
      ''organiser_email'' \<mapsto> ''N/A'', ''contact_person'' \<mapsto> ''N/A'',
      ''verification_status'' \<mapsto> ''Unverified'']"

text \<open>The body of the \<open>try\<close> of \<open>extract_organizer_details\<close>: the exception raised, if
  any, and \<open>organizer_info\<close> as it is at that point.\<close>

definition organizer_try ::
  "config \<Rightarrow> env \<Rightarrow> string \<Rightarrow> headers \<Rightarrow> dict \<Rightarrow> io_state \<Rightarrow> (exn option \<times> dict) \<times> io_state" where
  "organizer_try cfg e event_url hs info st =
     (case requests_get e event_url hs 15 st of
        (Inl ex, st1) \<Rightarrow> ((Some ex, info), st1)
      | (Inr resp, st1) \<Rightarrow>
          (case raise_for_status resp of
             Inl ex \<Rightarrow> ((Some ex, info), st1)
           | Inr u \<Rightarrow>
               (case method1 (content resp) info of
                  (Some ex, info1) \<Rightarrow> ((Some ex, info1), st1)
                | (None, info1) \<Rightarrow>
                    (case method3 e event_url (content resp) (method2 (content resp) info1) st1 of
                       ((Some ex, info3), st2) \<Rightarrow> ((Some ex, info3), st2)
                     | ((None, info3), st2) \<Rightarrow>
                         ((None, info3), sleep (request_delay cfg) st2)))))"

definition extract_organizer_details :: "config \<Rightarrow> env \<Rightarrow> string \<Rightarrow> headers \<Rightarrow> dict io" where
  "extract_organizer_details cfg e event_url hs st =
     (case organizer_try cfg e event_url hs initial_organizer_info st of
        ((None, organizer_info), st') \<Rightarrow> (Inr organizer_info, st')
      | ((Some ex, organizer_info), st') \<Rightarrow>
          (Inr (organizer_info(''verification_status'' \<mapsto> ''Error: '' @ take 50 (str_exn ex))),
           py_print (''Error extracting organizer details: '' @ str_exn ex) st'))"

section \<open>Card parser\<close>

text \<open>\<open>window\.open\(['"]([^'"]+)['"]\<close>: the twelve characters of \<open>window.open(\<close>, a
  quote, the group, a quote. The group is the text of the atom at index 13.\<close>

definition is_quote :: "char \<Rightarrow> bool" where
  "is_quote c = (c = CHR 0x27 \<or> c = CHR 0x22)"

definition window_open_pattern :: "atom list" where
  "window_open_pattern =
     lit ''window.open('' @ [One is_quote, Rep (\<lambda>c. \<not> is_quote c) 1, One is_quote]"

text \<open>\<open>re.sub(r'-+', ' ', s)\<close>\<close>

function sub_hyphens :: "string \<Rightarrow> string" where
  "sub_hyphens [] = []"
| "sub_hyphens (c # s) =
     (if c = CHR ''-'' then CHR '' '' # sub_hyphens (dropWhile (\<lambda>x. x = CHR ''-'') s)
      else c # sub_hyphens s)"
  by pat_completeness auto
termination
  by (relation "measure length") (auto simp: length_dropWhile_le less_Suc_eq_le)

text \<open>The three blocks of \<open>extract_event_data_from_card\<close>: the event date, the event link
  and name, the location. Each stores its keys in \<open>event_data\<close>.\<close>

definition extract_event_date :: "card \<Rightarrow> dict \<Rightarrow> dict" where
  "extract_event_date c event_data =
     (case date_td c of
        Some t \<Rightarrow> event_data(''event_date'' \<mapsto> t)
      | None \<Rightarrow> event_data(''event_date'' \<mapsto> ''N/A''))"

definition extract_link_and_name :: "card \<Rightarrow> dict \<Rightarrow> dict" where
  "extract_link_and_name c event_data =
     (case clickable_td c of
        Some onclick_content \<Rightarrow>
          (case re_search window_open_pattern None onclick_content of
             Some groups \<Rightarrow>
               event_data(''event_link'' \<mapsto> groups ! 13,
                          ''event_name'' \<mapsto>
                            strip (title (sub_hyphens (last (str_split (groups ! 13) ''/'')))))
           | None \<Rightarrow> event_data(''event_link'' \<mapsto> ''N/A'', ''event_name'' \<mapsto> ''N/A''))
      | None \<Rightarrow> event_data(''event_link'' \<mapsto> ''N/A'', ''event_name'' \<mapsto> ''N/A''))"

definition extract_location :: "card \<Rightarrow> dict \<Rightarrow> dict" where
  "extract_location c event_data =
     (case venue c of
        Some venue_link \<Rightarrow>
          (case venue_a venue_link of
             Some location \<Rightarrow>
               if contains '','' location
               then (let parts = str_split location '','' in
                     event_data(''city'' \<mapsto> strip (hd parts),
                                ''state'' \<mapsto>
                                  (if length parts > 1 then strip (last parts) else ''N/A'')))
               else event_data(''city'' \<mapsto> location, ''state'' \<mapsto> ''N/A'')
           | None \<Rightarrow> event_data(''city'' \<mapsto> venue_text venue_link, ''state'' \<mapsto> ''N/A''))
      | None \<Rightarrow> event_data(''city'' \<mapsto> ''N/A'', ''state'' \<mapsto> ''N/A''))"

text \<open>The \<open>try\<close> of the function guards calls that do not raise in this model, so the
  result is never \<open>None\<close>. \<open>str.split\<close> never returns the empty list, so \<open>parts[0]\<close> and
  \<open>parts[-1]\<close> are the head and the last element.\<close>

definition extract_event_data_from_card :: "card \<Rightarrow> headers \<Rightarrow> dict option" where
  "extract_event_data_from_card c hs =
     Some (extract_location c (extract_link_and_name c (extract_event_date c Map.empty)))"

section \<open>Driver\<close>

text \<open>\<open>xs[:n]\<close>: a negative \<open>n\<close> counts from the end.\<close>

definition py_prefix :: "int \<Rightarrow> 'a list \<Rightarrow> 'a list" where
  "py_prefix n xs = (if 0 \<le> n then take (nat n) xs else take (length xs - nat (- n)) xs)"

definition no_details :: dict where
  "no_details =
     [''organiser_name'' \<mapsto> ''N/A'', ''organiser_website'' \<mapsto> ''N/A'',
      ''organiser_email'' \<mapsto> ''N/A'', ''verification_status'' \<mapsto> ''No_Details'']"

text \<open>The validation of one record: the notes \<open>Website_Valid\<close> or \<open>Website_Invalid\<close>, then
  \<open>Email_Format_Valid\<close> or \<open>Email_Format_Invalid\<close>.\<close>

definition website_note :: "env \<Rightarrow> dict \<Rightarrow> string list io" where
  "website_note e organizer_info st =
     (case getitem organizer_info ''organiser_website'' of
        Inl ex \<Rightarrow> (Inl ex, st)
      | Inr website \<Rightarrow>
          if website \<noteq> ''N/A''
          then (case validate_url e website st of
                  (Inl ex, st') \<Rightarrow> (Inl ex, st')
                | (Inr True, st') \<Rightarrow> (Inr [''Website_Valid''], st')
                | (Inr False, st') \<Rightarrow> (Inr [''Website_Invalid''], st'))
          else (Inr [], st))"

definition email_note :: "dict \<Rightarrow> exn + string list" where
  "email_note organizer_info =
     (case getitem organizer_info ''organiser_email'' of
        Inl ex \<Rightarrow> Inl ex
      | Inr email \<Rightarrow>
          if email \<noteq> ''N/A''
          then (if validate_email_format email then Inr [''Email_Format_Valid'']
                else Inr [''Email_Format_Invalid''])
          else Inr [])"

definition log_entry :: "nat \<Rightarrow> dict \<Rightarrow> dict \<Rightarrow> dict \<Rightarrow> exn + string" where
  "log_entry i event_data organizer_info combined_data =
     (case getitem event_data ''event_name'' of
        Inl ex \<Rightarrow> Inl ex
      | Inr name \<Rightarrow>
          (case getitem organizer_info ''verification_status'' of
             Inl ex \<Rightarrow> Inl ex
           | Inr status \<Rightarrow>
               (case getitem combined_data ''validation_notes'' of
                  Inl ex \<Rightarrow> Inl ex
                | Inr notes \<Rightarrow>
                    Inr (''Event '' @ str_nat i @ '': '' @ name @ '' | Status: '' @ status @
                         '' | Notes: '' @ notes))))"

text \<open>The part of the loop body after the basic data of the event are known: organizer
  details, validation, and the two lists \<open>scraped_data\<close> and \<open>validation_log\<close>.\<close>

definition process_details ::
  "config \<Rightarrow> env \<Rightarrow> headers \<Rightarrow> nat \<Rightarrow> dict \<Rightarrow> dict list \<times> string list \<Rightarrow> io_state \<Rightarrow>
   (exn option \<times> dict list \<times> string list) \<times> io_state" where
  "process_details cfg e hs i event_data acc st =
     (case getitem event_data ''event_link'' of
        Inl ex \<Rightarrow> ((Some ex, acc), st)
      | Inr link \<Rightarrow>
          (case (if link \<noteq> ''N/A'' then extract_organizer_details cfg e link hs st
                 else (Inr no_details, st)) of
             (Inl ex, st1) \<Rightarrow> ((Some ex, acc), st1)
           | (Inr organizer_info, st1) \<Rightarrow>
               (case website_note e organizer_info st1 of
                  (Inl ex, st2) \<Rightarrow> ((Some ex, acc), st2)
                | (Inr notes1, st2) \<Rightarrow>
                    (case email_note organizer_info of
                       Inl ex \<Rightarrow> ((Some ex, acc), st2)
                     | Inr notes2 \<Rightarrow>
                         (let combined_data =
                                (event_data ++ organizer_info)
                                  (''validation_notes'' \<mapsto> join '', '' (notes1 @ notes2));
                              scraped_data = fst acc @ [combined_data]
                          in case log_entry i event_data organizer_info combined_data of
                               Inl ex \<Rightarrow> ((Some ex, (scraped_data, snd acc)), st2)
                             | Inr entry \<Rightarrow>
                                 ((None, (scraped_data, snd acc @ [entry])), st2))))))"

text \<open>The body of the \<open>try\<close> of the loop, for event number \<open>i\<close>.\<close>

definition process_event ::
  "config \<Rightarrow> env \<Rightarrow> headers \<Rightarrow> nat \<Rightarrow> card \<Rightarrow> dict list \<times> string list \<Rightarrow> io_state \<Rightarrow>
   (exn option \<times> dict list \<times> string list) \<times> io_state" where
  "process_event cfg e hs i c acc st =
     (case extract_event_data_from_card c hs of
        None \<Rightarrow> ((None, acc), py_print ''Could not extract basic event data'' st)
      | Some event_data \<Rightarrow>
          if event_data = Map.empty
          then ((None, acc), py_print ''Could not extract basic event data'' st)
          else (case getitem event_data ''event_name'' of
                  Inl ex \<Rightarrow> ((Some ex, acc), st)
                | Inr name \<Rightarrow>
                    if name = ''N/A''
                    then ((None, acc), py_print ''Could not extract basic event data'' st)
                    else process_details cfg e hs i event_data acc st))"

fun event_loop ::
  "config \<Rightarrow> env \<Rightarrow> headers \<Rightarrow> nat \<Rightarrow> card list \<Rightarrow> dict list \<times> string list \<Rightarrow> io_state \<Rightarrow>
   (dict list \<times> string list) \<times> io_state" where
  "event_loop cfg e hs i [] acc st = (acc, st)"
| "event_loop cfg e hs i (c # cards) acc st =
     (case process_event cfg e hs i c acc st of
        ((None, acc'), st') \<Rightarrow> event_loop cfg e hs (i + 1) cards acc' st'
      | ((Some ex, acc'), st') \<Rightarrow>
          event_loop cfg e hs (i + 1) cards acc'
            (py_print (''Error processing event '' @ str_nat i @ '': '' @ str_exn ex) st'))"

definition write_log :: "config \<Rightarrow> env \<Rightarrow> dict list \<Rightarrow> string list \<Rightarrow> unit io" where
  "write_log cfg e scraped_data entries st =
     (case fs_open e (validation_log cfg) of
        Some ex \<Rightarrow> (Inl ex, st)
      | None \<Rightarrow>
          (Inr (),
           st\<lparr>files := (files st)(validation_log cfg \<mapsto>
                 Text ([''EVENT ORGANIZER SCRAPING VALIDATION LOG'',
                        ''Scraped on: '' @ now e,
                        ''Total events processed: '' @ str_nat (length scraped_data),
                        ''''] @ entries))\<rparr>))"

text \<open>The two handlers of the outer \<open>try\<close>.\<close>

definition scrape_failed :: "exn \<Rightarrow> dict list io" where
  "scrape_failed ex st =
     (if is_RequestException ex
      then (Inr [],
            (if contains ''403'' (str_exn ex)
             then py_print ''This might be due to geo-blocking. Try using a VPN!''
             else id) (py_print (''Network error: '' @ str_exn ex) st))
      else (Inr [], py_print (''Unexpected error: '' @ str_exn ex) st))"

definition listing_url :: string where
  "listing_url = ''https://10times.com/usa/medical-pharma''"

definition scrape_10times_medical_pharma :: "config \<Rightarrow> env \<Rightarrow> dict list io" where
  "scrape_10times_medical_pharma cfg e st =
     (case requests_get e listing_url get_stealth_headers 30 st of
        (Inl ex, st1) \<Rightarrow> scrape_failed ex st1
      | (Inr resp, st1) \<Rightarrow>
          (case raise_for_status resp of
             Inl ex \<Rightarrow> scrape_failed ex st1
           | Inr u \<Rightarrow>
               (case event_loop cfg e get_stealth_headers 1
                       (py_prefix (events_to_scrape cfg) (event_cards (content resp)))
                       ([], []) st1 of
                  ((scraped_data, entries), st2) \<Rightarrow>
                    (case write_log cfg e scraped_data entries st2 of
                       (Inl ex, st3) \<Rightarrow> scrape_failed ex st3
                     | (Inr u, st3) \<Rightarrow> (Inr scraped_data, st3)))))"

section \<open>Reporter\<close>

definition csv_headers :: "string list" where
  "csv_headers =
     [''Event Name'', ''Date'', ''City'', ''State'', ''Organiser Name'', ''Organiser Website'',
      ''Organiser Email'', ''Event Link'', ''Verification Status'', ''Validation Notes'']"

definition csv_row :: "dict \<Rightarrow> dict" where
  "csv_row ev =
     [''Event Name'' \<mapsto> get_default ev ''event_name'' ''N/A'',
      ''Date'' \<mapsto> get_default ev ''event_date'' ''N/A'',
      ''City'' \<mapsto> get_default ev ''city'' ''N/A'',
      ''State'' \<mapsto> get_default ev ''state'' ''N/A'',
      ''Organiser Name'' \<mapsto> get_default ev ''organiser_name'' ''N/A'',
      ''Organiser Website'' \<mapsto> get_default ev ''organiser_website'' ''N/A'',
      ''Organiser Email'' \<mapsto> get_default ev ''organiser_email'' ''N/A'',
      ''Event Link'' \<mapsto> get_default ev ''event_link'' ''N/A'',
      ''Verification Status'' \<mapsto> get_default ev ''verification_status'' ''N/A'',
      ''Validation Notes'' \<mapsto> get_default ev ''validation_notes'' ''N/A'']"

text \<open>\<open>csv.DictWriter\<close>: the header row, then for each row the values of the field names
  in their order, the empty text for a missing one.\<close>

definition dict_writer_rows :: "string list \<Rightarrow> dict list \<Rightarrow> string list list" where
  "dict_writer_rows fieldnames rows =
     fieldnames # map (\<lambda>row. map (\<lambda>f. get_default row f []) fieldnames) rows"

text \<open>The function returns the data frame of the rows, or \<open>None\<close> when there is nothing
  to save.\<close>

definition save_to_csv_with_validation :: "config \<Rightarrow> env \<Rightarrow> dict list \<Rightarrow> dict list option io" where
  "save_to_csv_with_validation cfg e data st =
     (if data = [] then (Inr None, py_print ''No data to save!'' st)
      else (let csv_data = map csv_row data in
            case fs_open e (output_csv cfg) of
              Some ex \<Rightarrow> (Inl ex, st)
            | None \<Rightarrow>
                (Inr (Some csv_data),
                 st\<lparr>files := (files st)(output_csv cfg \<mapsto>
                       Csv (dict_writer_rows csv_headers csv_data))\<rparr>)))"

section \<open>Main block\<close>

definition str_bool :: "bool \<Rightarrow> string" where
  "str_bool b = (if b then ''True'' else ''False'')"

definition str_int :: "int \<Rightarrow> string" where
  "str_int n = (if n < 0 then ''-'' @ str_nat (nat (- n)) else str_nat (nat n))"

definition banner :: "config \<Rightarrow> io_state \<Rightarrow> io_state" where
  "banner cfg st =
     py_print (''Stealth mode: '' @ str_bool (use_stealth_mode cfg))
       (py_print (''Request delay: '' @ str_nat (request_delay cfg) @ '' seconds'')
          (py_print (''Output file: '' @ output_csv cfg)
             (py_print (''Events to scrape: '' @ str_int (events_to_scrape cfg))
                (py_print ''Configuration:'' st))))"

definition main :: "config \<Rightarrow> env \<Rightarrow> unit io" where
  "main cfg e st =
     (case scrape_10times_medical_pharma cfg e (banner cfg st) of
        (Inl ex, st1) \<Rightarrow> (Inl ex, st1)
      | (Inr organizer_data, st1) \<Rightarrow>
          if organizer_data \<noteq> []
          then (case save_to_csv_with_validation cfg e organizer_data st1 of
                  (Inl ex, st2) \<Rightarrow> (Inl ex, st2)
                | (Inr df_results, st2) \<Rightarrow> (Inr (), st2))
          else (Inr (), py_print ''SCRAPING FAILED!'' st1))"

section \<open>Vocabulary of the statements\<close>

text \<open>The wording of the specification: the text has a dot followed by at least two
  letters.\<close>

fun has_tld_segment :: "string \<Rightarrow> bool" where
  "has_tld_segment (c # a # b # s) =
     ((c = CHR ''.'' \<and> is_alpha a \<and> is_alpha b) \<or> has_tld_segment (a # b # s))"
| "has_tld_segment s = False"

text \<open>A link that Method 1 takes: an \<open>href\<close> that is not empty, is not a mail link and contains
  \<open>http\<close>. \<open>first_qualifying\<close> is the first such link among the siblings of one match,
  \<open>section_hit\<close> that of one keyword match, and \<open>hits\<close> lists them for all keywords and
  matches in the order in which Method 1 examines them.\<close>

definition qualifying :: "anchor \<Rightarrow> bool" where
  "qualifying link =
     (case href link of
        None \<Rightarrow> False
      | Some h \<Rightarrow> h \<noteq> [] \<and> \<not> startswith h ''mailto:'' \<and> contains ''http'' h)"

fun first_qualifying :: "element list \<Rightarrow> anchor option" where
  "first_qualifying [] = None"
| "first_qualifying (elem # rest) =
     (case find_a elem of
        None \<Rightarrow> first_qualifying rest
      | Some link \<Rightarrow> if qualifying link then Some link else first_qualifying rest)"

definition section_hit :: "text_node \<Rightarrow> anchor option" where
  "section_hit sec =
     (case parent_next_siblings sec of
        None \<Rightarrow> None
      | Some siblings \<Rightarrow> first_qualifying (take 3 siblings))"

definition hits :: "soup \<Rightarrow> anchor list" where
  "hits page =
     concat (map (\<lambda>keyword. List.map_filter section_hit (take 2 (find_all_text page keyword)))
               organizer_keywords)"

text \<open>The name lookup of a link does not raise; and the three assignments of Method 1 for
  a link.\<close>

definition named :: "anchor \<Rightarrow> bool" where
  "named link = (case href link of None \<Rightarrow> False | Some h \<Rightarrow> isl (link_name link h) = False)"

definition website_found :: "anchor \<Rightarrow> dict \<Rightarrow> dict" where
  "website_found link info =
     (case href link of
        None \<Rightarrow> info
      | Some h \<Rightarrow>
          (case link_name link h of
             Inl ex \<Rightarrow> info
           | Inr name \<Rightarrow>
               info(''organiser_website'' \<mapsto> h, ''organiser_name'' \<mapsto> name,
                    ''verification_status'' \<mapsto> ''Website_Found'')))"




text \<open>A contact link that Method 3 passes over as the claim has it: no \<open>href\<close>, or a
  \<open>mailto:\<close> link.\<close>

definition skipped :: "anchor \<Rightarrow> bool" where
  "skipped link = (case href link of None \<Rightarrow> True | Some h \<Rightarrow> startswith h ''mailto:'')"

text \<open>The exception that the fetch of a page raises, if any: that of \<open>requests.get\<close>, or
  that of \<open>raise_for_status\<close>. Then the record and the state that
  \<open>extract_organizer_details\<close> returns after such a failure.\<close>

definition fetch_error :: "env \<Rightarrow> nat \<Rightarrow> string \<Rightarrow> headers \<Rightarrow> exn option" where
  "fetch_error e n u hs =
     (case http_get e n u hs of
        Inl ex \<Rightarrow> Some ex
      | Inr resp \<Rightarrow> (case raise_for_status resp of Inl ex \<Rightarrow> Some ex | Inr x \<Rightarrow> None))"

definition error_info :: "exn \<Rightarrow> dict" where
  "error_info ex =
     [''organiser_name'' \<mapsto> ''N/A'', ''organiser_website'' \<mapsto> ''N/A'',
      ''organiser_email'' \<mapsto> ''N/A'', ''contact_person'' \<mapsto> ''N/A'',
      ''verification_status'' \<mapsto> ''Error: '' @ take 50 (str_exn ex)]"

definition after_failed_fetch :: "string \<Rightarrow> headers \<Rightarrow> exn \<Rightarrow> io_state \<Rightarrow> io_state" where
  "after_failed_fetch u hs ex st =
     py_print (''Error extracting organizer details: '' @ str_exn ex)
       (st\<lparr>trace := trace st @ [Get u hs 15]\<rparr>)"

text \<open>The card gives the event name and link, and neither is the sentinel. Then the record
  and the log line of an event whose detail page could not be fetched.\<close>

definition usable_event :: "card \<Rightarrow> headers \<Rightarrow> string \<Rightarrow> string \<Rightarrow> bool" where
  "usable_event c hs name link =
     (case extract_event_data_from_card c hs of
        None \<Rightarrow> False
      | Some d \<Rightarrow> d ''event_name'' = Some name \<and> d ''event_link'' = Some link \<and>
                  name \<noteq> ''N/A'' \<and> link \<noteq> ''N/A'')"

definition failed_record :: "dict \<Rightarrow> exn \<Rightarrow> dict" where
  "failed_record event_data ex = (event_data ++ error_info ex)(''validation_notes'' \<mapsto> [])"

definition failed_entry :: "nat \<Rightarrow> string \<Rightarrow> exn \<Rightarrow> string" where
  "failed_entry i name ex =
     ''Event '' @ str_nat i @ '': '' @ name @ '' | Status: '' @ ''Error: '' @ take 50 (str_exn ex) @
     '' | Notes: ''"

text \<open>The line that reports a failed run.\<close>

definition failure_report :: "exn \<Rightarrow> string" where
  "failure_report ex =
     (if is_RequestException ex then ''Network error: '' @ str_exn ex
      else ''Unexpected error: '' @ str_exn ex)"

text \<open>Two states with the same requests and the same files; two results with the same
  value, the same requests and the same files. The printed lines may differ.\<close>

definition same_io :: "io_state \<Rightarrow> io_state \<Rightarrow> bool" where
  "same_io st st' = (trace st = trace st' \<and> files st = files st')"

definition agree :: "'a \<times> io_state \<Rightarrow> 'a \<times> io_state \<Rightarrow> bool" where
  "agree r r' = (fst r = fst r' \<and> same_io (snd r) (snd r'))"

text \<open>A request that carries the stealth headers; a state all of whose requests do.\<close>

fun stealth_request :: "event \<Rightarrow> bool" where
  "stealth_request (Get u hs t) = (hs = get_stealth_headers)"
| "stealth_request (Head u hs t) = (hs = get_stealth_headers)"
| "stealth_request (Sleep n) = True"

definition stealth_only :: "io_state \<Rightarrow> bool" where
  "stealth_only st = list_all stealth_request (trace st)"





section \<open>Sample inputs\<close>

text \<open>The state before a run.\<close>

definition empty_state :: io_state where
  "empty_state = \<lparr>trace = [], console = [], files = Map.empty\<rparr>"

text \<open>A network on which every page times out and two contact pages answer a HEAD request.\<close>

definition sample_env :: env where
  "sample_env =
     \<lparr>http_get = (\<lambda>n u hs. Inl (RequestException ''Read timed out.'')),
      http_head = (\<lambda>n u hs. if u = ''https://acme-pharma.com/contact'' then Inr 301
                             else if u = ''https://acme-pharma.com/about'' then Inr 404
                             else Inl (RequestException ''Read timed out.'')),
      urljoin = (\<lambda>base h. Inr (''https://acme-pharma.com'' @ h)),
      now = ''2025-09-01 12:00:00'',
      fs_open = (\<lambda>name. None)\<rparr>"

text \<open>A page with three contact links, the first two without a target to probe.\<close>

definition sample_contact_page :: soup where
  "sample_contact_page =
     \<lparr>event_cards = [], find_all_text = (\<lambda>k. []), markup = [],
      contact_links = [\<lparr>href = None, get_text = ''About us''\<rparr>,
                       \<lparr>href = Some ''mailto:press@acme-pharma.com'', get_text = ''Contact''\<rparr>,
                       \<lparr>href = Some ''/contact'', get_text = ''Contact page''\<rparr>]\<rparr>"


text \<open>A page with a link next to a match of \<open>organizer\<close> and another one next to the second
  match of \<open>hosted by\<close>.\<close>

definition first_link :: anchor where
  "first_link = \<lparr>href = Some ''https://first.example.org'', get_text = ''First Org''\<rparr>"

definition second_link :: anchor where
  "second_link = \<lparr>href = Some ''https://second.example.org/events'', get_text = []\<rparr>"

definition sample_keyword_page :: soup where
  "sample_keyword_page =
     \<lparr>event_cards = [],
      find_all_text = (\<lambda>k.
        if k = ''organizer''
        then [\<lparr>parent_next_siblings = Some [\<lparr>find_a = None\<rparr>, \<lparr>find_a = Some first_link\<rparr>]\<rparr>]
        else if k = ''hosted by''
        then [\<lparr>parent_next_siblings = None\<rparr>,
              \<lparr>parent_next_siblings = Some [\<lparr>find_a = Some second_link\<rparr>]\<rparr>]
        else []),
      markup = [], contact_links = []\<rparr>"


text \<open>A listing with one card.\<close>

definition sample_card :: card where
  "sample_card =
     \<lparr>date_td = Some ''Mon, 12 Jan 2026'',
      clickable_td = Some (''window.open('' @ [CHR 0x27] @ ''https://10times.com/bio-expo-boston'' @
                           [CHR 0x27] @ '')''),
      venue = Some \<lparr>venue_a = Some ''Boston, MA'', venue_text = ''Boston, MA''\<rparr>\<rparr>"

definition sample_listing :: soup where
  "sample_listing =
     \<lparr>event_cards = [sample_card], find_all_text = (\<lambda>k. []), markup = [], contact_links = []\<rparr>"

text \<open>The listing page answers with the given status and one event card; every other
  request times out.\<close>

definition sample_listing_env :: "nat \<Rightarrow> env" where
  "sample_listing_env code =
     \<lparr>http_get = (\<lambda>n u hs.
        if u = listing_url
        then Inr \<lparr>status_code = code, reason = ''Unknown'', url = listing_url,
                  content = sample_listing\<rparr>
        else Inl (RequestException ''Read timed out.'')),
      http_head = (\<lambda>n u hs. Inl (RequestException ''Read timed out.'')),
      urljoin = (\<lambda>base h. Inr h),
      now = ''2025-09-01 12:00:00'',
      fs_open = (\<lambda>name. None)\<rparr>"

section \<open>Properties of the matcher\<close>

lemma re_match_length: "re_match as prev s = Some ps \<Longrightarrow> length ps = length as"
  by (induction as prev s arbitrary: ps rule: re_match.induct)
     (auto split: if_splits option.splits list.splits)

lemma re_match_Rep_sound:
  "re_match (Rep P n # as) prev s = Some ps \<Longrightarrow>
   \<exists>p ps' s'. ps = p # ps' \<and> s = p @ s' \<and> list_all P p \<and> n \<le> length p \<and>
     re_match as (prev_after prev p) s' = Some ps'"
proof (induction s arbitrary: n prev ps)
  case Nil
  then show ?case by (auto split: if_splits)
next
  case (Cons c s)
  show ?case
  proof (cases "P c \<and> (\<exists>q qs. re_match (Rep P (n - 1) # as) (Some c) s = Some (q # qs))")
    case True
    then obtain q qs where pc: "P c" and m: "re_match (Rep P (n - 1) # as) (Some c) s = Some (q # qs)"
      by blast
    from Cons.IH [OF m] obtain s' where
      s: "s = q @ s'" and q: "list_all P q" and n: "n - 1 \<le> length q"
      and r: "re_match as (prev_after (Some c) q) s' = Some qs"
      by auto
    from Cons.prems pc m have ps: "ps = (c # q) # qs" by simp
    have "re_match as (prev_after prev (c # q)) s' = Some qs"
      using r by simp
    moreover have "c # s = (c # q) @ s'" using s by simp
    moreover have "list_all P (c # q)" using pc q by simp
    moreover have "n \<le> length (c # q)" using n by simp
    ultimately show ?thesis using ps by blast
  next
    case False
    with Cons.prems have z: "n = 0" and r: "map_option (Cons []) (re_match as prev (c # s)) = Some ps"
      by (auto split: if_splits option.splits list.splits)
    then obtain ps' where "ps = [] # ps'" "re_match as prev (c # s) = Some ps'" by auto
    with z show ?thesis by auto
  qed
qed

lemma re_match_Rep_complete:
  "list_all P p \<Longrightarrow> n \<le> length p \<Longrightarrow>
   re_match as (prev_after prev p) s \<noteq> None \<Longrightarrow>
   re_match (Rep P n # as) prev (p @ s) \<noteq> None"
proof (induction p arbitrary: n prev)
  case Nil
  then have z: "n = 0" and r: "re_match as prev s \<noteq> None" by auto
  show ?case
  proof (cases s)
    case Nil
    with z r show ?thesis by auto
  next
    case (Cons c s')
    with z r show ?thesis by (auto split: option.splits list.splits)
  qed
next
  case (Cons c p)
  have "re_match as (prev_after (Some c) p) s \<noteq> None"
    using Cons.prems(3) by simp
  moreover have "list_all P p" "n - 1 \<le> length p" using Cons.prems by auto
  ultimately have "re_match (Rep P (n - 1) # as) (Some c) (p @ s) \<noteq> None"
    by (rule Cons.IH [rotated 2])
  then obtain qs where m: "re_match (Rep P (n - 1) # as) (Some c) (p @ s) = Some qs" by auto
  from re_match_length [OF m] obtain q qs' where "qs = q # qs'" by (cases qs) auto
  with m Cons.prems show ?case by simp
qed

lemma validate_email_format_iff:
  "validate_email_format s \<longleftrightarrow>
   (\<exists>l d t e. s = l @ ''@'' @ d @ ''.'' @ t @ e \<and> l \<noteq> [] \<and> list_all email_local_char l \<and>
      d \<noteq> [] \<and> list_all email_domain_char d \<and> 2 \<le> length t \<and> list_all is_alpha t \<and>
      (e = [] \<or> e = [CHR 0x0A]))"
  (is "?L \<longleftrightarrow> ?R")
proof
  assume ?L
  then obtain ps where m: "re_match email_format_pattern None s = Some ps"
    by (auto simp: validate_email_format_def)
  from re_match_Rep_sound [OF m [unfolded email_format_pattern_def]]
  obtain l ps1 s1 where s: "s = l @ s1" and l: "list_all email_local_char l" "1 \<le> length l"
    and m1: "re_match [One (\<lambda>c. c = CHR ''@''), Rep email_domain_char 1,
      One (\<lambda>c. c = CHR ''.''), Rep is_alpha 2, Eos] (prev_after None l) s1 = Some ps1"
    by blast
  from m1 obtain s2 ps2 where s1: "s1 = CHR ''@'' # s2"
    and m2: "re_match (Rep email_domain_char 1 # [One (\<lambda>c. c = CHR ''.''), Rep is_alpha 2, Eos]) (Some CHR ''@'') s2 = Some ps2"
    by (cases s1) (auto split: if_splits)
  from re_match_Rep_sound [OF m2]
  obtain d ps3 s3 where s2: "s2 = d @ s3" and d: "list_all email_domain_char d" "1 \<le> length d"
    and m3: "re_match [One (\<lambda>c. c = CHR ''.''), Rep is_alpha 2, Eos] (prev_after (Some CHR ''@'') d) s3 = Some ps3"
    by blast
  from m3 obtain s4 ps4 where s3: "s3 = CHR ''.'' # s4"
    and m4: "re_match (Rep is_alpha 2 # [Eos]) (Some CHR ''.'') s4 = Some ps4"
    by (cases s3) (auto split: if_splits)
  from re_match_Rep_sound [OF m4]
  obtain t ps5 e where s4: "s4 = t @ e" and t: "list_all is_alpha t" "2 \<le> length t"
    and m5: "re_match [Eos] (prev_after (Some CHR ''.'') t) e = Some ps5"
    by blast
  from m5 have e: "e = [] \<or> e = [CHR 0x0A]" by (auto split: if_splits)
  have "s = l @ ''@'' @ d @ ''.'' @ t @ e" using s s1 s2 s3 s4 by simp
  moreover have "l \<noteq> []" "d \<noteq> []" using l d by auto
  ultimately show ?R using l d t e by blast
next
  assume ?R
  then obtain l d t e where s: "s = l @ ''@'' @ d @ ''.'' @ t @ e" and l: "l \<noteq> []" "list_all email_local_char l"
    and d: "d \<noteq> []" "list_all email_domain_char d" and t: "2 \<le> length t" "list_all is_alpha t"
    and e: "e = [] \<or> e = [CHR 0x0A]" by blast
  have m5: "re_match [Eos] (prev_after (Some CHR ''.'') t) e \<noteq> None"
    using e by auto
  have m4: "re_match (Rep is_alpha 2 # [Eos]) (Some CHR ''.'') (t @ e) \<noteq> None"
    by (rule re_match_Rep_complete [OF t(2) t(1) m5])
  have m3: "re_match [One (\<lambda>c. c = CHR ''.''), Rep is_alpha 2, Eos] (prev_after (Some CHR ''@'') d) (''.'' @ t @ e) \<noteq> None"
    using m4 by simp
  have m2: "re_match (Rep email_domain_char 1 # [One (\<lambda>c. c = CHR ''.''), Rep is_alpha 2, Eos]) (Some CHR ''@'') (d @ ''.'' @ t @ e) \<noteq> None"
    by (rule re_match_Rep_complete [OF d(2) _ m3]) (use d in \<open>cases d; simp\<close>)
  have m1: "re_match [One (\<lambda>c. c = CHR ''@''), Rep email_domain_char 1,
      One (\<lambda>c. c = CHR ''.''), Rep is_alpha 2, Eos] (prev_after None l) (''@'' @ d @ ''.'' @ t @ e) \<noteq> None"
    using m2 by simp
  have "re_match email_format_pattern None (l @ ''@'' @ d @ ''.'' @ t @ e) \<noteq> None"
    unfolding email_format_pattern_def
    by (rule re_match_Rep_complete [OF l(2) _ m1]) (use l in \<open>cases l; simp\<close>)
  then show ?L by (simp add: validate_email_format_def s)
qed

lemma has_tld_segment_append:
  "2 \<le> length t \<Longrightarrow> list_all is_alpha t \<Longrightarrow> has_tld_segment (u @ ''.'' @ t @ v)"
proof (induction u)
  case Nil
  then obtain a b t' where "t = a # b # t'" by (cases t; cases "tl t") auto
  with Nil show ?case by simp
next
  case (Cons c u)
  then have ih: "has_tld_segment (u @ ''.'' @ t @ v)" by simp
  obtain a b t' where t: "t = a # b # t'" using Cons.prems by (cases t; cases "tl t") auto
  show ?case
  proof (cases u)
    case Nil
    with ih t show ?thesis by simp
  next
    case (Cons x u')
    note u = this
    show ?thesis
    proof (cases u')
      case Nil
      with ih u t show ?thesis by simp
    next
      case (Cons y u'')
      with ih u show ?thesis by simp
    qed
  qed
qed

section \<open>Contact links\<close>

lemma probe_links_skip:
  "skipped link \<Longrightarrow>
   probe_links e event_url (link # rest) info st = probe_links e event_url rest info st"
  by (auto simp: skipped_def split: option.splits)

lemma probe_links_filter:
  "probe_links e event_url links info st =
   probe_links e event_url (filter (\<lambda>l. \<not> skipped l) links) info st"
proof (induction links arbitrary: info st)
  case Nil
  show ?case by simp
next
  case (Cons link links)
  show ?case
  proof (cases "skipped link")
    case True
    have "probe_links e event_url (link # links) info st = probe_links e event_url links info st"
      by (rule probe_links_skip [OF True])
    also have "\<dots> = probe_links e event_url (filter (\<lambda>l. \<not> skipped l) links) info st"
      by (rule Cons.IH)
    finally show ?thesis using True by (simp del: probe_links.simps)
  next
    case False
    then obtain h where h: "href link = Some h" "\<not> startswith h ''mailto:''"
      by (auto simp: skipped_def split: option.splits)
    show ?thesis using False h Cons.IH
      by (auto split: sum.splits prod.splits bool.splits)
  qed
qed

section \<open>Substrings and splitting\<close>


section \<open>Method 1\<close>

lemma scan_elements_none:
  "first_qualifying elems = None \<Longrightarrow> scan_elements elems info = (None, info)"
proof (induction elems)
  case Nil
  show ?case by simp
next
  case (Cons elem elems)
  show ?case
  proof (cases "find_a elem")
    case None
    with Cons show ?thesis by simp
  next
    case (Some link)
    with Cons.prems have q: "\<not> qualifying link" and r: "first_qualifying elems = None"
      by (auto split: if_splits)
    from q Some Cons.IH [OF r] show ?thesis
      by (auto simp: qualifying_def split: option.splits)
  qed
qed

lemma scan_elements_hit:
  "first_qualifying elems = Some link \<Longrightarrow> named link \<Longrightarrow>
   scan_elements elems info = (None, website_found link info)"
proof (induction elems)
  case Nil
  then show ?case by simp
next
  case (Cons elem elems)
  show ?case
  proof (cases "find_a elem")
    case None
    with Cons show ?thesis by simp
  next
    case (Some l)
    show ?thesis
    proof (cases "qualifying l")
      case True
      with Some Cons.prems have eq: "l = link" by simp
      from True obtain h where h: "href l = Some h" "h \<noteq> []" "\<not> startswith h ''mailto:''" "contains ''http'' h"
        by (auto simp: qualifying_def split: option.splits)
      with Some eq Cons.prems(2) show ?thesis
        by (auto simp: named_def website_found_def split: sum.splits)
    next
      case False
      with Some Cons.prems have r: "first_qualifying elems = Some link" by simp
      from False Some Cons.IH [OF r Cons.prems(2)] show ?thesis
        by (auto simp: qualifying_def split: option.splits)
    qed
  qed
qed

lemma scan_sections_fold:
  "\<forall>l \<in> set (List.map_filter section_hit secs). named l \<Longrightarrow>
   scan_sections secs info = (None, fold website_found (List.map_filter section_hit secs) info)"
proof (induction secs arbitrary: info)
  case Nil
  show ?case by (simp add: List.map_filter_simps)
next
  case (Cons sec secs)
  show ?case
  proof (cases "section_hit sec")
    case None
    with Cons.prems have p: "\<forall>l \<in> set (List.map_filter section_hit secs). named l"
      by (simp add: List.map_filter_simps)
    have "scan_sections (sec # secs) info = scan_sections secs info"
    proof (cases "parent_next_siblings sec")
      case None
      then show ?thesis by simp
    next
      case (Some sibs)
      with \<open>section_hit sec = None\<close> have "first_qualifying (take 3 sibs) = None"
        by (simp add: section_hit_def)
      then have "scan_elements (take 3 sibs) info = (None, info)"
        by (rule scan_elements_none)
      with Some show ?thesis by simp
    qed
    with Cons.IH [OF p] None show ?thesis by (simp add: List.map_filter_simps)
  next
    case (Some link)
    with Cons.prems have n: "named link"
      and p: "\<forall>l \<in> set (List.map_filter section_hit secs). named l"
      by (simp_all add: List.map_filter_simps)
    from Some obtain sibs where s: "parent_next_siblings sec = Some sibs"
      and f: "first_qualifying (take 3 sibs) = Some link"
      by (auto simp: section_hit_def split: option.splits)
    have "scan_elements (take 3 sibs) info = (None, website_found link info)"
      using f n by (rule scan_elements_hit)
    with s have "scan_sections (sec # secs) info = scan_sections secs (website_found link info)"
      by simp
    with Cons.IH [OF p] Some show ?thesis by (simp add: List.map_filter_simps)
  qed
qed

lemma scan_keywords_fold:
  "\<forall>l \<in> set (concat (map (\<lambda>k. List.map_filter section_hit (take 2 (find_all_text page k))) ks)). named l \<Longrightarrow>
   scan_keywords page ks info =
     (None, fold website_found
        (concat (map (\<lambda>k. List.map_filter section_hit (take 2 (find_all_text page k))) ks)) info)"
proof (induction ks arbitrary: info)
  case Nil
  show ?case by simp
next
  case (Cons k ks)
  from Cons.prems have a: "\<forall>l \<in> set (List.map_filter section_hit (take 2 (find_all_text page k))). named l"
    and b: "\<forall>l \<in> set (concat (map (\<lambda>k. List.map_filter section_hit (take 2 (find_all_text page k))) ks)). named l"
    by auto
  show ?case
    by (simp add: scan_sections_fold [OF a] Cons.IH [OF b])
qed

lemma sample_hits: "hits sample_keyword_page = [first_link, second_link]"
  by (simp add: hits_def sample_keyword_page_def organizer_keywords_def List.map_filter_simps
      section_hit_def qualifying_def first_link_def second_link_def startswith_def)







section \<open>A detail page that cannot be fetched\<close>

lemma organizer_try_fetch_error:
  "fetch_error e (length (trace st)) u hs = Some ex \<Longrightarrow>
   organizer_try cfg e u hs info st = ((Some ex, info), st\<lparr>trace := trace st @ [Get u hs 15]\<rparr>)"
  by (auto simp: fetch_error_def organizer_try_def requests_get_def split: sum.splits)

lemma extract_organizer_details_fetch_error:
  "fetch_error e (length (trace st)) u hs = Some ex \<Longrightarrow>
   extract_organizer_details cfg e u hs st = (Inr (error_info ex), after_failed_fetch u hs ex st)"
  by (simp add: extract_organizer_details_def organizer_try_fetch_error error_info_def
      after_failed_fetch_def initial_organizer_info_def)

lemma error_info_lookups:
  "error_info ex ''organiser_name'' = Some ''N/A''"
  "error_info ex ''organiser_website'' = Some ''N/A''"
  "error_info ex ''organiser_email'' = Some ''N/A''"
  "error_info ex ''verification_status'' = Some (''Error: '' @ take 50 (str_exn ex))"
  by (simp_all add: error_info_def)

lemma process_details_fetch_error:
  assumes "event_data ''event_link'' = Some link" "link \<noteq> ''N/A''"
    and "event_data ''event_name'' = Some name"
    and "fetch_error e (length (trace st)) link hs = Some ex"
  shows "process_details cfg e hs i event_data (scraped, entries) st =
     ((None, (scraped @ [failed_record event_data ex], entries @ [failed_entry i name ex])),
      after_failed_fetch link hs ex st)"
proof -
  have w: "website_note e (error_info ex) (after_failed_fetch link hs ex st) =
      (Inr [], after_failed_fetch link hs ex st)"
    by (simp add: website_note_def getitem_def error_info_lookups)
  have m: "email_note (error_info ex) = Inr []"
    by (simp add: email_note_def getitem_def error_info_lookups)
  have l: "log_entry i event_data (error_info ex) (failed_record event_data ex) =
      Inr (failed_entry i name ex)"
    using assms(3)
    by (simp add: log_entry_def error_info_lookups failed_record_def failed_entry_def getitem_def)
  show ?thesis
    using assms(1,2) l
    by (simp add: process_details_def getitem_def
        extract_organizer_details_fetch_error [OF assms(4)] w m failed_record_def)
qed

lemma extract_event_data_nonempty:
  "extract_event_data_from_card c hs = Some d \<Longrightarrow> d \<noteq> Map.empty"
  by (auto simp: extract_event_data_from_card_def extract_location_def Let_def
      split: option.splits if_splits)

lemma process_event_usable:
  assumes "extract_event_data_from_card c hs = Some d" "d ''event_name'' = Some name"
    "name \<noteq> ''N/A''"
  shows "process_event cfg e hs i c acc st = process_details cfg e hs i d acc st"
  using assms extract_event_data_nonempty [OF assms(1)]
  by (simp add: process_event_def getitem_def)

lemma failed_record_fields:
  "failed_record d ex ''organiser_name'' = Some ''N/A''"
  "failed_record d ex ''organiser_website'' = Some ''N/A''"
  "failed_record d ex ''organiser_email'' = Some ''N/A''"
  "failed_record d ex ''verification_status'' = Some (''Error: '' @ take 50 (str_exn ex))"
  "failed_record d ex ''validation_notes'' = Some []"
  by (simp_all add: failed_record_def error_info_def)

lemma process_event_fetch_error:
  assumes "usable_event c hs name link" "fetch_error e (length (trace st)) link hs = Some ex"
  shows "\<exists>d. extract_event_data_from_card c hs = Some d \<and>
     process_event cfg e hs i c (scraped, entries) st =
       ((None, (scraped @ [failed_record d ex], entries @ [failed_entry i name ex])),
        after_failed_fetch link hs ex st)"
proof -
  from assms(1) obtain d where d: "extract_event_data_from_card c hs = Some d"
    "d ''event_name'' = Some name" "d ''event_link'' = Some link" "name \<noteq> ''N/A''" "link \<noteq> ''N/A''"
    by (auto simp: usable_event_def split: option.splits)
  have "process_event cfg e hs i c (scraped, entries) st =
      process_details cfg e hs i d (scraped, entries) st"
    by (rule process_event_usable [OF d(1,2,4)])
  also have "\<dots> = ((None, (scraped @ [failed_record d ex], entries @ [failed_entry i name ex])),
        after_failed_fetch link hs ex st)"
    by (rule process_details_fetch_error [OF d(3,5,2) assms(2)])
  finally show ?thesis using d(1) by blast
qed

lemma sample_card_usable:
  "usable_event sample_card hs ''Bio Expo Boston'' ''https://10times.com/bio-expo-boston''"
  by code_simp

lemma sample_detail_fetch:
  "fetch_error (sample_listing_env code) n ''https://10times.com/bio-expo-boston'' hs =
     Some (RequestException ''Read timed out.'')"
  by (simp add: fetch_error_def sample_listing_env_def listing_url_def)

section \<open>A listing page that cannot be fetched\<close>

lemma scrape_failed_props:
  "fst (scrape_failed ex st) = Inr []"
  "files (snd (scrape_failed ex st)) = files st"
  "trace (snd (scrape_failed ex st)) = trace st"
  "failure_report ex \<in> set (console (snd (scrape_failed ex st)))"
  by (simp_all add: scrape_failed_def py_print_def failure_report_def)

lemma scrape_listing_failure:
  "fetch_error e (length (trace st)) listing_url get_stealth_headers = Some ex \<Longrightarrow>
   scrape_10times_medical_pharma cfg e st =
     scrape_failed ex (st\<lparr>trace := trace st @ [Get listing_url get_stealth_headers 30]\<rparr>)"
  by (auto simp: fetch_error_def scrape_10times_medical_pharma_def requests_get_def
      split: sum.splits)

lemma banner_props:
  "trace (banner cfg st) = trace st" "files (banner cfg st) = files st"
  by (simp_all add: banner_def py_print_def)

lemma main_listing_failure:
  assumes "fetch_error e (length (trace st)) listing_url get_stealth_headers = Some ex"
  shows "main cfg e st =
     (Inr (), py_print ''SCRAPING FAILED!''
        (snd (scrape_failed ex
           ((banner cfg st)\<lparr>trace := trace st @ [Get listing_url get_stealth_headers 30]\<rparr>))))"
proof -
  from assms have "fetch_error e (length (trace (banner cfg st))) listing_url get_stealth_headers = Some ex"
    by (simp add: banner_props)
  from scrape_listing_failure [OF this, of cfg]
  have s: "scrape_10times_medical_pharma cfg e (banner cfg st) =
      scrape_failed ex ((banner cfg st)\<lparr>trace := trace st @ [Get listing_url get_stealth_headers 30]\<rparr>)"
    by (simp add: banner_props)
  show ?thesis
    unfolding main_def s
    by (cases "scrape_failed ex ((banner cfg st)\<lparr>trace := trace st @ [Get listing_url get_stealth_headers 30]\<rparr>)")
       (use scrape_failed_props(1) [of ex "(banner cfg st)\<lparr>trace := trace st @ [Get listing_url get_stealth_headers 30]\<rparr>"] in auto)
qed

lemma sample_scrape:
  assumes "\<not> (400 \<le> code \<and> code < 600)"
  shows "\<exists>d. extract_event_data_from_card sample_card get_stealth_headers = Some d \<and>
     fst (scrape_10times_medical_pharma default_config (sample_listing_env code) st) =
       Inr [failed_record d (RequestException ''Read timed out.'')] \<and>
     trace (snd (scrape_10times_medical_pharma default_config (sample_listing_env code) st)) =
       trace st @ [Get listing_url get_stealth_headers 30,
                   Get ''https://10times.com/bio-expo-boston'' get_stealth_headers 15]"
proof -
  let ?e = "sample_listing_env code"
  let ?st1 = "st\<lparr>trace := trace st @ [Get listing_url get_stealth_headers 30]\<rparr>"
  let ?ex = "RequestException ''Read timed out.''"
  obtain d where d: "extract_event_data_from_card sample_card get_stealth_headers = Some d"
    and p: "process_event default_config ?e get_stealth_headers 1 sample_card ([], []) ?st1 =
       ((None, ([] @ [failed_record d ?ex], [] @ [failed_entry 1 ''Bio Expo Boston'' ?ex])),
        after_failed_fetch ''https://10times.com/bio-expo-boston'' get_stealth_headers ?ex ?st1)"
    using process_event_fetch_error [OF sample_card_usable sample_detail_fetch] by blast
  have g: "requests_get ?e listing_url get_stealth_headers 30 st =
      (Inr \<lparr>status_code = code, reason = ''Unknown'', url = listing_url,
            content = sample_listing\<rparr>, ?st1)"
    by (simp add: requests_get_def sample_listing_env_def)
  have r: "raise_for_status \<lparr>status_code = code, reason = ''Unknown'', url = listing_url,
            content = sample_listing\<rparr> = Inr ()"
    using assms by (auto simp: raise_for_status_def)
  have c: "py_prefix (events_to_scrape default_config) (event_cards sample_listing) = [sample_card]"
    by (simp add: py_prefix_def default_config_def sample_listing_def)
  have l: "event_loop default_config ?e get_stealth_headers (Suc 0) [sample_card] ([], []) ?st1 =
      (([failed_record d ?ex], [failed_entry 1 ''Bio Expo Boston'' ?ex]),
       after_failed_fetch ''https://10times.com/bio-expo-boston'' get_stealth_headers ?ex ?st1)"
    using p by simp
  have f: "fs_open ?e (validation_log default_config) = None"
    by (simp add: sample_listing_env_def)
  have "fst (scrape_10times_medical_pharma default_config ?e st) = Inr [failed_record d ?ex]"
    and "trace (snd (scrape_10times_medical_pharma default_config ?e st)) =
       trace st @ [Get listing_url get_stealth_headers 30,
                   Get ''https://10times.com/bio-expo-boston'' get_stealth_headers 15]"
    by (simp_all add: scrape_10times_medical_pharma_def g r c l write_log_def f
        after_failed_fetch_def py_print_def del: event_loop.simps)
  with d show ?thesis by blast
qed

lemma sample_listing_fetch:
  "fetch_error (sample_listing_env 503) n listing_url hs =
     Some (HTTPError (''503 Server Error: Unknown for url: '' @ listing_url))"
  by (simp add: fetch_error_def sample_listing_env_def raise_for_status_def)
     code_simp

section \<open>Independence of the toggle and of the printed lines\<close>

lemma agreeE:
  assumes "agree r r'"
  obtains x s s' where "r = (x, s)" "r' = (x, s')" "same_io s s'"
  using assms by (cases r; cases r') (auto simp: agree_def)

lemma same_io_print: "same_io st st' \<Longrightarrow> same_io (py_print a st) (py_print b st')"
  by (simp add: same_io_def py_print_def)

lemma same_io_sleep: "same_io st st' \<Longrightarrow> same_io (sleep n st) (sleep n st')"
  by (simp add: same_io_def sleep_def)

lemma requests_get_agree:
  "same_io st st' \<Longrightarrow> agree (requests_get e u hs t st) (requests_get e u hs t st')"
  by (simp add: agree_def same_io_def requests_get_def)

lemma validate_url_agree:
  "same_io st st' \<Longrightarrow> agree (validate_url e u st) (validate_url e u st')"
  by (auto simp: agree_def same_io_def validate_url_def requests_head_def split: sum.splits)

lemma probe_links_agree:
  "same_io st st' \<Longrightarrow>
   agree (probe_links e u links info st) (probe_links e u links info st')"
proof (induction links arbitrary: st st')
  case Nil
  then show ?case by (simp add: agree_def)
next
  case (Cons link links)
  show ?case
  proof (cases "href link")
    case None
    then show ?thesis using Cons.IH [OF Cons.prems] by simp
  next
    case (Some h)
    show ?thesis
    proof (cases "h \<noteq> [] \<and> \<not> startswith h ''mailto:''")
      case False
      with Some show ?thesis using Cons.IH [OF Cons.prems] by auto
    next
      case True
      show ?thesis
      proof (cases "urljoin e u h")
        case (Inl ex)
        with Some True Cons.prems show ?thesis by (simp add: agree_def)
      next
        case (Inr full_url)
        from validate_url_agree [OF Cons.prems, of e full_url]
        obtain r s s' where v: "validate_url e full_url st = (r, s)"
          "validate_url e full_url st' = (r, s')" and ss: "same_io s s'"
          by (rule agreeE)
        show ?thesis
        proof (cases r)
          case (Inl ex)
          with Some True \<open>urljoin e u h = Inr full_url\<close> v ss show ?thesis
            by (simp add: agree_def)
        next
          case (Inr ok)
          with Some True \<open>urljoin e u h = Inr full_url\<close> v ss Cons.IH [OF ss] show ?thesis
            by (cases ok) (simp_all add: agree_def)
        qed
      qed
    qed
  qed
qed

lemma organizer_try_agree:
  assumes "same_io st st'"
  shows "agree (organizer_try (cfg\<lparr>use_stealth_mode := b\<rparr>) e u hs info st)
               (organizer_try cfg e u hs info st')"
proof -
  from requests_get_agree [OF assms, of e u hs 15]
  obtain r s s' where g: "requests_get e u hs 15 st = (r, s)" "requests_get e u hs 15 st' = (r, s')"
    and ss: "same_io s s'"
    by (rule agreeE)
  show ?thesis
  proof (cases r)
    case (Inl ex)
    with g ss show ?thesis by (simp add: organizer_try_def agree_def)
  next
    case (Inr resp)
    note r = this
    show ?thesis
    proof (cases "raise_for_status resp")
      case (Inl ex)
      with r g ss show ?thesis by (simp add: organizer_try_def agree_def)
    next
      case (Inr x)
      note ok = this
      obtain x1 info1 where m1: "method1 (content resp) info = (x1, info1)"
        by (cases "method1 (content resp) info")
      show ?thesis
      proof (cases x1)
        case (Some ex)
        with r ok m1 g ss show ?thesis by (simp add: organizer_try_def agree_def)
      next
        case None
        from probe_links_agree [OF ss]
        have "agree (method3 e u (content resp) (method2 (content resp) info1) s)
                    (method3 e u (content resp) (method2 (content resp) info1) s')"
          by (simp add: method3_def)
        then obtain y t t' where
          m3: "method3 e u (content resp) (method2 (content resp) info1) s = (y, t)"
          "method3 e u (content resp) (method2 (content resp) info1) s' = (y, t')"
          and tt: "same_io t t'"
          by (rule agreeE)
        obtain y1 info3 where y: "y = (y1, info3)" by (cases y)
        from r ok m1 None g m3 tt y same_io_sleep [OF tt] show ?thesis
          by (cases y1) (simp_all add: organizer_try_def agree_def)
      qed
    qed
  qed
qed

lemma extract_organizer_details_agree:
  assumes "same_io st st'"
  shows "agree (extract_organizer_details (cfg\<lparr>use_stealth_mode := b\<rparr>) e u hs st)
               (extract_organizer_details cfg e u hs st')"
proof -
  from organizer_try_agree [OF assms]
  obtain y s s' where t: "organizer_try (cfg\<lparr>use_stealth_mode := b\<rparr>) e u hs initial_organizer_info st = (y, s)"
    "organizer_try cfg e u hs initial_organizer_info st' = (y, s')" and ss: "same_io s s'"
    by (rule agreeE)
  obtain y1 info where y: "y = (y1, info)" by (cases y)
  from t ss y same_io_print [OF ss] show ?thesis
    by (cases y1) (simp_all add: extract_organizer_details_def agree_def)
qed

lemma website_note_agree:
  assumes "same_io st st'"
  shows "agree (website_note e info st) (website_note e info st')"
proof (cases "getitem info ''organiser_website''")
  case (Inl ex)
  with assms show ?thesis by (simp add: website_note_def agree_def)
next
  case (Inr website)
  show ?thesis
  proof (cases "website \<noteq> ''N/A''")
    case False
    with Inr assms show ?thesis by (simp add: website_note_def agree_def)
  next
    case True
    from validate_url_agree [OF assms, of e website]
    obtain r s s' where v: "validate_url e website st = (r, s)"
      "validate_url e website st' = (r, s')" and ss: "same_io s s'"
      by (rule agreeE)
    show ?thesis
    proof (cases r)
      case (Inl ex)
      with Inr True v ss show ?thesis by (simp add: website_note_def agree_def)
    next
      case (Inr ok)
      with \<open>getitem info ''organiser_website'' = Inr website\<close> True v ss show ?thesis
        by (cases ok) (simp_all add: website_note_def agree_def)
    qed
  qed
qed

lemma process_details_agree:
  assumes "same_io st st'"
  shows "agree (process_details (cfg\<lparr>use_stealth_mode := b\<rparr>) e hs i d acc st)
               (process_details cfg e hs i d acc st')"
proof (cases "getitem d ''event_link''")
  case (Inl ex)
  with assms show ?thesis by (simp add: process_details_def agree_def)
next
  case (Inr link)
  note link = this
  have "agree (if link \<noteq> ''N/A'' then extract_organizer_details (cfg\<lparr>use_stealth_mode := b\<rparr>) e link hs st
               else (Inr no_details, st))
              (if link \<noteq> ''N/A'' then extract_organizer_details cfg e link hs st'
               else (Inr no_details, st'))"
    using extract_organizer_details_agree [OF assms] assms by (simp add: agree_def)
  then obtain r s s' where
    x: "(if link \<noteq> ''N/A'' then extract_organizer_details (cfg\<lparr>use_stealth_mode := b\<rparr>) e link hs st
         else (Inr no_details, st)) = (r, s)"
    "(if link \<noteq> ''N/A'' then extract_organizer_details cfg e link hs st'
         else (Inr no_details, st')) = (r, s')" and ss: "same_io s s'"
    by (rule agreeE)
  show ?thesis
  proof (cases r)
    case (Inl ex)
    with link x ss show ?thesis by (simp add: process_details_def agree_def)
  next
    case (Inr info)
    note info = this
    from website_note_agree [OF ss, of e info]
    obtain w t t' where w: "website_note e info s = (w, t)" "website_note e info s' = (w, t')"
      and tt: "same_io t t'"
      by (rule agreeE)
    show ?thesis
    proof (cases w)
      case (Inl ex)
      with link x info w tt show ?thesis by (simp add: process_details_def agree_def)
    next
      case (Inr notes1)
      with link x info w tt show ?thesis
        by (simp add: process_details_def agree_def Let_def split: sum.splits)
    qed
  qed
qed

lemma process_event_agree:
  assumes "same_io st st'"
  shows "agree (process_event (cfg\<lparr>use_stealth_mode := b\<rparr>) e hs i c acc st)
               (process_event cfg e hs i c acc st')"
  using process_details_agree [OF assms] same_io_print [OF assms] assms
  by (simp add: process_event_def agree_def split: option.splits sum.splits)

lemma event_loop_agree:
  "same_io st st' \<Longrightarrow>
   agree (event_loop (cfg\<lparr>use_stealth_mode := b\<rparr>) e hs i cards acc st)
         (event_loop cfg e hs i cards acc st')"
proof (induction cards arbitrary: i acc st st')
  case Nil
  then show ?case by (simp add: agree_def)
next
  case (Cons c cards)
  from process_event_agree [OF Cons.prems]
  obtain r s s' where p: "process_event (cfg\<lparr>use_stealth_mode := b\<rparr>) e hs i c acc st = (r, s)"
    "process_event cfg e hs i c acc st' = (r, s')" and ss: "same_io s s'"
    by (rule agreeE)
  obtain x acc' where r: "r = (x, acc')" by (cases r)
  show ?case
  proof (cases x)
    case None
    with p r Cons.IH [OF ss] show ?thesis by simp
  next
    case (Some ex)
    with p r Cons.IH [OF same_io_print [OF ss]] show ?thesis by simp
  qed
qed

lemma write_log_agree:
  "same_io st st' \<Longrightarrow>
   agree (write_log (cfg\<lparr>use_stealth_mode := b\<rparr>) e data entries st) (write_log cfg e data entries st')"
  by (simp add: write_log_def agree_def same_io_def split: option.splits)

lemma scrape_failed_agree:
  "same_io st st' \<Longrightarrow> agree (scrape_failed ex st) (scrape_failed ex st')"
  by (simp add: scrape_failed_def agree_def same_io_def py_print_def)

lemma scrape_agree:
  assumes "same_io st st'"
  shows "agree (scrape_10times_medical_pharma (cfg\<lparr>use_stealth_mode := b\<rparr>) e st)
               (scrape_10times_medical_pharma cfg e st')"
proof -
  from requests_get_agree [OF assms, of e listing_url get_stealth_headers 30]
  obtain r s s' where g: "requests_get e listing_url get_stealth_headers 30 st = (r, s)"
    "requests_get e listing_url get_stealth_headers 30 st' = (r, s')" and ss: "same_io s s'"
    by (rule agreeE)
  show ?thesis
  proof (cases r)
    case (Inl ex)
    with g scrape_failed_agree [OF ss] show ?thesis
      by (simp add: scrape_10times_medical_pharma_def)
  next
    case (Inr resp)
    note r = this
    show ?thesis
    proof (cases "raise_for_status resp")
      case (Inl ex)
      with r g scrape_failed_agree [OF ss] show ?thesis
        by (simp add: scrape_10times_medical_pharma_def)
    next
      case (Inr x)
      let ?cards = "py_prefix (events_to_scrape cfg) (event_cards (content resp))"
      from event_loop_agree [OF ss]
      obtain a t t' where
        l: "event_loop (cfg\<lparr>use_stealth_mode := b\<rparr>) e get_stealth_headers 1 ?cards ([], []) s = (a, t)"
        "event_loop cfg e get_stealth_headers 1 ?cards ([], []) s' = (a, t')" and tt: "same_io t t'"
        by (rule agreeE)
      obtain data entries where a: "a = (data, entries)" by (cases a)
      from write_log_agree [OF tt]
      obtain w v v' where w: "write_log (cfg\<lparr>use_stealth_mode := b\<rparr>) e data entries t = (w, v)"
        "write_log cfg e data entries t' = (w, v')" and vv: "same_io v v'"
        by (rule agreeE)
      show ?thesis
      proof (cases w)
        case (Inl ex)
        with r Inr g l a w scrape_failed_agree [OF vv] show ?thesis
          by (simp add: scrape_10times_medical_pharma_def del: event_loop.simps)
      next
        case (Inr u)
        with r \<open>raise_for_status resp = Inr x\<close> g l a w vv show ?thesis
          by (simp add: scrape_10times_medical_pharma_def agree_def del: event_loop.simps)
      qed
    qed
  qed
qed

lemma save_agree:
  "same_io st st' \<Longrightarrow>
   agree (save_to_csv_with_validation (cfg\<lparr>use_stealth_mode := b\<rparr>) e data st)
         (save_to_csv_with_validation cfg e data st')"
  by (simp add: save_to_csv_with_validation_def agree_def same_io_def py_print_def Let_def
      split: option.splits)

lemma banner_same_io: "same_io (banner cfg' st) (banner cfg st)"
  by (simp add: banner_def same_io_def py_print_def)

lemma main_agree:
  "agree (main (cfg\<lparr>use_stealth_mode := b\<rparr>) e st) (main cfg e st)"
proof -
  from scrape_agree [OF banner_same_io]
  obtain r s s' where
    x: "scrape_10times_medical_pharma (cfg\<lparr>use_stealth_mode := b\<rparr>) e
          (banner (cfg\<lparr>use_stealth_mode := b\<rparr>) st) = (r, s)"
    "scrape_10times_medical_pharma cfg e (banner cfg st) = (r, s')" and ss: "same_io s s'"
    by (rule agreeE)
  show ?thesis
  proof (cases r)
    case (Inl ex)
    with x ss show ?thesis by (simp add: main_def agree_def)
  next
    case (Inr data)
    from save_agree [OF ss]
    obtain w t t' where w: "save_to_csv_with_validation (cfg\<lparr>use_stealth_mode := b\<rparr>) e data s = (w, t)"
      "save_to_csv_with_validation cfg e data s' = (w, t')" and tt: "same_io t t'"
      by (rule agreeE)
    from Inr x ss w tt same_io_print [OF ss] show ?thesis
      by (cases w) (simp_all add: main_def agree_def)
  qed
qed

section \<open>The headers of the requests\<close>

lemma stealth_print: "stealth_only (py_print a st) = stealth_only st"
  by (simp add: stealth_only_def py_print_def)

lemma validate_url_stealth:
  "validate_url e u st = (r, st') \<Longrightarrow> stealth_only st \<Longrightarrow> stealth_only st'"
  by (auto simp: validate_url_def requests_head_def stealth_only_def split: sum.splits)

lemma probe_links_stealth:
  "probe_links e u links info st = (r, st') \<Longrightarrow> stealth_only st \<Longrightarrow> stealth_only st'"
proof (induction links arbitrary: st)
  case Nil
  then show ?case by simp
next
  case (Cons link links)
  then show ?case
    by (auto split: option.splits if_splits sum.splits prod.splits bool.splits
        dest: validate_url_stealth)
qed

lemma organizer_try_stealth:
  "organizer_try cfg e u get_stealth_headers info st = (r, st') \<Longrightarrow> stealth_only st \<Longrightarrow>
   stealth_only st'"
  by (auto simp: organizer_try_def requests_get_def method3_def sleep_def stealth_only_def
      split: sum.splits prod.splits option.splits dest!: probe_links_stealth [unfolded stealth_only_def])

lemma extract_organizer_details_stealth:
  "extract_organizer_details cfg e u get_stealth_headers st = (r, st') \<Longrightarrow> stealth_only st \<Longrightarrow>
   stealth_only st'"
  by (auto simp: extract_organizer_details_def stealth_print
      split: prod.splits option.splits dest: organizer_try_stealth)

lemma website_note_stealth:
  "website_note e info st = (r, st') \<Longrightarrow> stealth_only st \<Longrightarrow> stealth_only st'"
  by (auto simp: website_note_def split: sum.splits if_splits prod.splits bool.splits
      dest: validate_url_stealth)

lemma process_details_stealth:
  "process_details cfg e get_stealth_headers i d acc st = (r, st') \<Longrightarrow> stealth_only st \<Longrightarrow>
   stealth_only st'"
  by (auto simp: process_details_def Let_def split: sum.splits if_splits prod.splits
      dest: extract_organizer_details_stealth website_note_stealth)

lemma process_event_stealth:
  "process_event cfg e get_stealth_headers i c acc st = (r, st') \<Longrightarrow> stealth_only st \<Longrightarrow>
   stealth_only st'"
  by (auto simp: process_event_def stealth_print split: option.splits sum.splits if_splits
      dest: process_details_stealth)

lemma event_loop_stealth:
  "event_loop cfg e get_stealth_headers i cards acc st = (r, st') \<Longrightarrow> stealth_only st \<Longrightarrow>
   stealth_only st'"
proof (induction cards arbitrary: i acc st)
  case Nil
  then show ?case by simp
next
  case (Cons c cards)
  obtain x acc' s where p: "process_event cfg e get_stealth_headers i c acc st = ((x, acc'), s)"
    by (cases "process_event cfg e get_stealth_headers i c acc st") auto
  from process_event_stealth [OF p Cons.prems(2)] have s: "stealth_only s" .
  show ?case
  proof (cases x)
    case None
    with p Cons.prems(1) have "event_loop cfg e get_stealth_headers (i + 1) cards acc' s = (r, st')"
      by simp
    from Cons.IH [OF this s] show ?thesis .
  next
    case (Some ex)
    with p Cons.prems(1) have "event_loop cfg e get_stealth_headers (i + 1) cards acc'
        (py_print (''Error processing event '' @ str_nat i @ '': '' @ str_exn ex) s) = (r, st')"
      by simp
    from Cons.IH [OF this] s show ?thesis by (simp add: stealth_print)
  qed
qed

lemma scrape_failed_stealth:
  "scrape_failed ex st = (r, st') \<Longrightarrow> stealth_only st \<Longrightarrow> stealth_only st'"
  by (auto simp: scrape_failed_def stealth_print split: if_splits)

lemma write_log_stealth:
  "write_log cfg e data entries st = (r, st') \<Longrightarrow> stealth_only st \<Longrightarrow> stealth_only st'"
  by (auto simp: write_log_def stealth_only_def split: option.splits)

lemma scrape_stealth:
  assumes "scrape_10times_medical_pharma cfg e st = (r, st')" "stealth_only st"
  shows "stealth_only st'"
proof -
  let ?s = "st\<lparr>trace := trace st @ [Get listing_url get_stealth_headers 30]\<rparr>"
  have s: "stealth_only ?s" using assms(2) by (simp add: stealth_only_def)
  have g: "requests_get e listing_url get_stealth_headers 30 st =
      (http_get e (length (trace st)) listing_url get_stealth_headers, ?s)"
    by (simp add: requests_get_def)
  show ?thesis
  proof (cases "fetch_error e (length (trace st)) listing_url get_stealth_headers")
    case (Some ex)
    from assms(1) scrape_listing_failure [OF Some, of cfg] scrape_failed_stealth [OF _ s]
    show ?thesis by simp
  next
    case None
    then obtain resp where resp: "http_get e (length (trace st)) listing_url get_stealth_headers = Inr resp"
      "raise_for_status resp = Inr ()"
      by (auto simp: fetch_error_def split: sum.splits)
    let ?cards = "py_prefix (events_to_scrape cfg) (event_cards (content resp))"
    obtain data entries t where
      l: "event_loop cfg e get_stealth_headers 1 ?cards ([], []) ?s = ((data, entries), t)"
      by (cases "event_loop cfg e get_stealth_headers 1 ?cards ([], []) ?s") auto
    from event_loop_stealth [OF l s] have t: "stealth_only t" .
    obtain w v where w: "write_log cfg e data entries t = (w, v)"
      by (cases "write_log cfg e data entries t")
    from write_log_stealth [OF w t] have v: "stealth_only v" .
    from assms(1) g resp l w v scrape_failed_stealth [OF _ v] show ?thesis
      by (cases w) (auto simp: scrape_10times_medical_pharma_def simp del: event_loop.simps)
  qed
qed

lemma save_stealth:
  "save_to_csv_with_validation cfg e data st = (r, st') \<Longrightarrow> stealth_only st \<Longrightarrow> stealth_only st'"
  by (auto simp: save_to_csv_with_validation_def stealth_only_def py_print_def Let_def
      split: if_splits option.splits)

lemma main_stealth:
  assumes "stealth_only st"
  shows "stealth_only (snd (main cfg e st))"
proof -
  have b: "stealth_only (banner cfg st)"
    using assms by (simp add: stealth_only_def banner_props)
  obtain r s where x: "scrape_10times_medical_pharma cfg e (banner cfg st) = (r, s)"
    by (cases "scrape_10times_medical_pharma cfg e (banner cfg st)")
  from scrape_stealth [OF x b] have s: "stealth_only s" .
  show ?thesis
  proof (cases r)
    case (Inl ex)
    with x s show ?thesis by (simp add: main_def)
  next
    case (Inr data)
    obtain w t where w: "save_to_csv_with_validation cfg e data s = (w, t)"
      by (cases "save_to_csv_with_validation cfg e data s")
    from save_stealth [OF w s] have "stealth_only t" .
    with Inr x s w show ?thesis
      by (cases w) (simp_all add: main_def stealth_print)
  qed
qed

section \<open>The records of the dataset\<close>





























section \<open>Claims\<close>

text \<open>
  C1. Every text made of a non-empty local part over \<open>[a-zA-Z0-9._%+-]\<close>, an \<open>@\<close>, a
  non-empty domain over \<open>[a-zA-Z0-9.-]\<close>, a dot and at least two letters is accepted by
  \<open>validate_email_format\<close>; a text without \<open>@\<close>, or without a dot followed by two
  letters, is rejected. \<open>a.b@sub.example.co\<close> is accepted, \<open>not-an-email\<close> and \<open>x@y\<close>
  are rejected. The accepted texts are exactly those of this shape, with or without one
  line feed after the last letter, which the \<open>$\<close> of Python lets pass.
\<close>

theorem validate_email_format_spec:
  "(l \<noteq> [] \<and> list_all email_local_char l \<and> d \<noteq> [] \<and> list_all email_domain_char d \<and>
    2 \<le> length t \<and> list_all is_alpha t \<longrightarrow> validate_email_format (l @ ''@'' @ d @ ''.'' @ t)) \<and>
   (CHR ''@'' \<notin> set s \<longrightarrow> \<not> validate_email_format s) \<and>
   (\<not> has_tld_segment s \<longrightarrow> \<not> validate_email_format s) \<and>
   (validate_email_format s \<longleftrightarrow>
      (\<exists>l d t e. s = l @ ''@'' @ d @ ''.'' @ t @ e \<and> l \<noteq> [] \<and> list_all email_local_char l \<and>
         d \<noteq> [] \<and> list_all email_domain_char d \<and> 2 \<le> length t \<and> list_all is_alpha t \<and>
         (e = [] \<or> e = [CHR 0x0A]))) \<and>
   validate_email_format ''a.b@sub.example.co'' \<and>
   \<not> validate_email_format ''not-an-email'' \<and>
   \<not> validate_email_format ''x@y''"
proof (intro conjI impI)
  assume "l \<noteq> [] \<and> list_all email_local_char l \<and> d \<noteq> [] \<and> list_all email_domain_char d \<and>
    2 \<le> length t \<and> list_all is_alpha t"
  then have "\<exists>l' d' t' e. l @ ''@'' @ d @ ''.'' @ t = l' @ ''@'' @ d' @ ''.'' @ t' @ e \<and> l' \<noteq> [] \<and> list_all email_local_char l' \<and>
      d' \<noteq> [] \<and> list_all email_domain_char d' \<and> 2 \<le> length t' \<and> list_all is_alpha t' \<and>
      (e = [] \<or> e = [CHR 0x0A])"
    by (intro exI [of _ l] exI [of _ d] exI [of _ t] exI [of _ "[]"]) simp
  then show "validate_email_format (l @ ''@'' @ d @ ''.'' @ t)"
    by (simp only: validate_email_format_iff)
next
  assume "CHR ''@'' \<notin> set s"
  then show "\<not> validate_email_format s"
    by (auto simp: validate_email_format_iff)
next
  assume "\<not> has_tld_segment s"
  then show "\<not> validate_email_format s"
    using has_tld_segment_append [of _ "_ @ ''@'' @ _"]
    by (fastforce simp: validate_email_format_iff)
next
  show "validate_email_format s \<longleftrightarrow>
      (\<exists>l d t e. s = l @ ''@'' @ d @ ''.'' @ t @ e \<and> l \<noteq> [] \<and> list_all email_local_char l \<and>
         d \<noteq> [] \<and> list_all email_domain_char d \<and> 2 \<le> length t \<and> list_all is_alpha t \<and>
         (e = [] \<or> e = [CHR 0x0A]))"
    by (rule validate_email_format_iff)
next
  show "validate_email_format ''a.b@sub.example.co''" by code_simp
  show "\<not> validate_email_format ''not-an-email''" by code_simp
  show "\<not> validate_email_format ''x@y''" by code_simp
qed

theorem validate_email_format_spec_witness:
  "validate_email_format (''a.b'' @ ''@'' @ ''sub.example'' @ ''.'' @ ''co'') \<and>
   CHR ''@'' \<notin> set ''not-an-email'' \<and> \<not> validate_email_format ''not-an-email'' \<and>
   \<not> has_tld_segment ''x@y'' \<and> \<not> validate_email_format ''x@y''"
proof -
  have h1: "''a.b'' \<noteq> [] \<and> list_all email_local_char ''a.b'' \<and> ''sub.example'' \<noteq> [] \<and>
    list_all email_domain_char ''sub.example'' \<and> 2 \<le> length ''co'' \<and> list_all is_alpha ''co''"
    by code_simp
  have h2: "CHR ''@'' \<notin> set ''not-an-email''" by simp
  have h3: "\<not> has_tld_segment ''x@y''" by simp
  note th = validate_email_format_spec [of "''a.b''" "''sub.example''" "''co''"]
  from th [of "''not-an-email''"] th [of "''x@y''"] h1 h2 h3 show ?thesis by blast
qed

text \<open>
  C2, as amended. The \<open>break\<close> of Method 1 leaves the loop over the siblings of one keyword
  match only. The other matches (up to two for each keyword) and the other keywords are
  still examined, and every match that has a qualifying sibling link sets
  \<open>organiser_website\<close>, \<open>organiser_name\<close> and the status \<open>Website_Found\<close> again: when no
  name lookup raises, the values that remain are those of the last such match.
\<close>

theorem method1_last_match_wins:
  "(\<forall>l \<in> set (hits page). named l) \<longrightarrow>
     method1 page info = (None, fold website_found (hits page) info) \<and>
     (\<forall>ls link h name. hits page = ls @ [link] \<and> href link = Some h \<and> link_name link h = Inr name \<longrightarrow>
        snd (method1 page info) ''organiser_website'' = Some h \<and>
        snd (method1 page info) ''organiser_name'' = Some name \<and>
        snd (method1 page info) ''verification_status'' = Some ''Website_Found'')"
proof
  assume a: "\<forall>l \<in> set (hits page). named l"
  have m: "method1 page info = (None, fold website_found (hits page) info)"
    using a unfolding method1_def hits_def by (rule scan_keywords_fold)
  show "method1 page info = (None, fold website_found (hits page) info) \<and>
     (\<forall>ls link h name. hits page = ls @ [link] \<and> href link = Some h \<and> link_name link h = Inr name \<longrightarrow>
        snd (method1 page info) ''organiser_website'' = Some h \<and>
        snd (method1 page info) ''organiser_name'' = Some name \<and>
        snd (method1 page info) ''verification_status'' = Some ''Website_Found'')"
  proof (intro conjI allI impI)
    show "method1 page info = (None, fold website_found (hits page) info)" by (rule m)
  next
    fix ls link h name
    assume b: "hits page = ls @ [link] \<and> href link = Some h \<and> link_name link h = Inr name"
    then show "snd (method1 page info) ''organiser_website'' = Some h"
      and "snd (method1 page info) ''organiser_name'' = Some name"
      and "snd (method1 page info) ''verification_status'' = Some ''Website_Found''"
      by (simp_all add: m website_found_def)
  qed
qed

text \<open>
  The claim as stated fails: on the sample page the first qualifying link belongs to the
  keyword \<open>organizer\<close>, and the values that remain are those of the link found for the
  later keyword \<open>hosted by\<close>.
\<close>

theorem method1_first_match_counterexample:
  "hits sample_keyword_page = [first_link, second_link] \<and>
   href first_link = Some ''https://first.example.org'' \<and>
   snd (method1 sample_keyword_page initial_organizer_info) ''organiser_website'' =
     Some ''https://second.example.org/events'' \<and>
   snd (method1 sample_keyword_page initial_organizer_info) ''organiser_name'' =
     Some ''second.example.org''"
  by (simp add: sample_hits)
     (simp add: first_link_def method1_def sample_keyword_page_def organizer_keywords_def
        second_link_def startswith_def link_name_def str_split_def)

theorem method1_last_match_wins_witness:
  "named first_link \<and> named second_link \<and>
   hits sample_keyword_page = [first_link] @ [second_link] \<and>
   snd (method1 sample_keyword_page initial_organizer_info) ''organiser_website'' =
     Some ''https://second.example.org/events'' \<and>
   snd (method1 sample_keyword_page initial_organizer_info) ''organiser_name'' =
     Some ''second.example.org'' \<and>
   snd (method1 sample_keyword_page initial_organizer_info) ''verification_status'' =
     Some ''Website_Found''"
proof -
  have n2: "link_name second_link ''https://second.example.org/events'' = Inr ''second.example.org''"
    by (simp add: link_name_def second_link_def str_split_def)
  have h3: "href second_link = Some ''https://second.example.org/events''"
    by (simp add: second_link_def)
  have nm1: "named first_link"
    by (simp add: named_def first_link_def link_name_def)
  have nm2: "named second_link"
    unfolding named_def using n2 h3 by simp
  have h1: "\<forall>l \<in> set (hits sample_keyword_page). named l"
    using nm1 nm2 by (simp add: sample_hits)
  have h2: "hits sample_keyword_page = [first_link] @ [second_link]"
    by (simp add: sample_hits)
  from method1_last_match_wins [of sample_keyword_page initial_organizer_info] h1
  have "\<forall>ls link h name. hits sample_keyword_page = ls @ [link] \<and> href link = Some h \<and> link_name link h = Inr name \<longrightarrow>
        snd (method1 sample_keyword_page initial_organizer_info) ''organiser_website'' = Some h \<and>
        snd (method1 sample_keyword_page initial_organizer_info) ''organiser_name'' = Some name \<and>
        snd (method1 sample_keyword_page initial_organizer_info) ''verification_status'' = Some ''Website_Found''"
    by blast
  with h2 h3 n2 have "snd (method1 sample_keyword_page initial_organizer_info) ''organiser_website'' = Some ''https://second.example.org/events'' \<and>
        snd (method1 sample_keyword_page initial_organizer_info) ''organiser_name'' = Some ''second.example.org'' \<and>
        snd (method1 sample_keyword_page initial_organizer_info) ''verification_status'' = Some ''Website_Found''"
    by blast
  with nm1 nm2 h2 show ?thesis by blast
qed



text \<open>
  C4. When the fetch of the detail page raises (the request itself, or \<open>raise_for_status\<close>),
  \<open>extract_organizer_details\<close> returns a record: the organizer fields are \<open>N/A\<close> and the
  status is \<open>Error: \<close> followed by the first 50 characters of the message. For a card
  with a name and a link, the body of the loop ends without an exception, the record is
  appended, and the loop goes on with the next cards.
\<close>

theorem detail_fetch_failure:
  "(fetch_error e (length (trace st)) u hs = Some ex \<longrightarrow>
      extract_organizer_details cfg e u hs st =
        (Inr [''organiser_name'' \<mapsto> ''N/A'', ''organiser_website'' \<mapsto> ''N/A'',
              ''organiser_email'' \<mapsto> ''N/A'', ''contact_person'' \<mapsto> ''N/A'',
              ''verification_status'' \<mapsto> ''Error: '' @ take 50 (str_exn ex)],
         after_failed_fetch u hs ex st)) \<and>
   (usable_event c hs name link \<and> fetch_error e (length (trace st)) link hs = Some ex \<longrightarrow>
      (\<exists>r entry.
         process_event cfg e hs i c (scraped, entries) st =
           ((None, (scraped @ [r], entries @ [entry])), after_failed_fetch link hs ex st) \<and>
         event_loop cfg e hs i (c # cards) (scraped, entries) st =
           event_loop cfg e hs (i + 1) cards (scraped @ [r], entries @ [entry])
             (after_failed_fetch link hs ex st) \<and>
         r ''organiser_name'' = Some ''N/A'' \<and> r ''organiser_website'' = Some ''N/A'' \<and>
         r ''organiser_email'' = Some ''N/A'' \<and>
         r ''verification_status'' = Some (''Error: '' @ take 50 (str_exn ex))))"
proof (intro conjI impI)
  assume "fetch_error e (length (trace st)) u hs = Some ex"
  then show "extract_organizer_details cfg e u hs st =
        (Inr [''organiser_name'' \<mapsto> ''N/A'', ''organiser_website'' \<mapsto> ''N/A'',
              ''organiser_email'' \<mapsto> ''N/A'', ''contact_person'' \<mapsto> ''N/A'',
              ''verification_status'' \<mapsto> ''Error: '' @ take 50 (str_exn ex)],
         after_failed_fetch u hs ex st)"
    by (simp only: extract_organizer_details_fetch_error error_info_def)
next
  assume a: "usable_event c hs name link \<and> fetch_error e (length (trace st)) link hs = Some ex"
  then obtain d where
    p: "process_event cfg e hs i c (scraped, entries) st =
       ((None, (scraped @ [failed_record d ex], entries @ [failed_entry i name ex])),
        after_failed_fetch link hs ex st)"
    using process_event_fetch_error by blast
  then have "event_loop cfg e hs i (c # cards) (scraped, entries) st =
           event_loop cfg e hs (i + 1) cards
             (scraped @ [failed_record d ex], entries @ [failed_entry i name ex])
             (after_failed_fetch link hs ex st)"
    by simp
  with p failed_record_fields [of d ex]
  show "\<exists>r entry.
         process_event cfg e hs i c (scraped, entries) st =
           ((None, (scraped @ [r], entries @ [entry])), after_failed_fetch link hs ex st) \<and>
         event_loop cfg e hs i (c # cards) (scraped, entries) st =
           event_loop cfg e hs (i + 1) cards (scraped @ [r], entries @ [entry])
             (after_failed_fetch link hs ex st) \<and>
         r ''organiser_name'' = Some ''N/A'' \<and> r ''organiser_website'' = Some ''N/A'' \<and>
         r ''organiser_email'' = Some ''N/A'' \<and>
         r ''verification_status'' = Some (''Error: '' @ take 50 (str_exn ex))"
    by blast
qed

text \<open>
  A card whose detail page times out, followed by a second card.
\<close>

theorem detail_fetch_failure_witness:
  "usable_event sample_card get_stealth_headers ''Bio Expo Boston''
     ''https://10times.com/bio-expo-boston'' \<and>
   fetch_error (sample_listing_env 200) (length (trace empty_state))
     ''https://10times.com/bio-expo-boston'' get_stealth_headers =
     Some (RequestException ''Read timed out.'') \<and>
   fst (extract_organizer_details default_config (sample_listing_env 200)
     ''https://10times.com/bio-expo-boston'' get_stealth_headers empty_state) =
     Inr [''organiser_name'' \<mapsto> ''N/A'', ''organiser_website'' \<mapsto> ''N/A'',
          ''organiser_email'' \<mapsto> ''N/A'', ''contact_person'' \<mapsto> ''N/A'',
          ''verification_status'' \<mapsto> ''Error: Read timed out.''] \<and>
   (\<exists>r entry.
      event_loop default_config (sample_listing_env 200) get_stealth_headers 1
        [sample_card, sample_card] ([], []) empty_state =
      event_loop default_config (sample_listing_env 200) get_stealth_headers 2
        [sample_card] ([r], [entry])
        (after_failed_fetch ''https://10times.com/bio-expo-boston'' get_stealth_headers
           (RequestException ''Read timed out.'') empty_state) \<and>
      r ''organiser_website'' = Some ''N/A'' \<and>
      r ''verification_status'' = Some ''Error: Read timed out.'')"
proof -
  note th = detail_fetch_failure [of "sample_listing_env 200" empty_state
      "''https://10times.com/bio-expo-boston''" get_stealth_headers
      "RequestException ''Read timed out.''" default_config sample_card
      "''Bio Expo Boston''" "''https://10times.com/bio-expo-boston''" 1 "[]" "[]" "[sample_card]"]
  have h1: "usable_event sample_card get_stealth_headers ''Bio Expo Boston''
     ''https://10times.com/bio-expo-boston''"
    by (rule sample_card_usable)
  have h2: "fetch_error (sample_listing_env 200) (length (trace empty_state))
     ''https://10times.com/bio-expo-boston'' get_stealth_headers =
     Some (RequestException ''Read timed out.'')"
    by (rule sample_detail_fetch)
  from th h1 h2 show ?thesis by (simp add: numeral_2_eq_2 del: event_loop.simps) blast
qed




text \<open>
  C6. \<open>validate_url\<close> returns \<open>True\<close> exactly when the HEAD request answers with status
  200, 301 or 302; when the request raises, it returns \<open>False\<close>; it never raises itself. It
  issues one HEAD request with the stealth headers and a timeout of 10 seconds.
\<close>

theorem validate_url_spec:
  "(http_head e (length (trace st)) u get_stealth_headers = Inr code \<longrightarrow>
      fst (validate_url e u st) = Inr (code = 200 \<or> code = 301 \<or> code = 302)) \<and>
   (http_head e (length (trace st)) u get_stealth_headers = Inl ex \<longrightarrow>
      fst (validate_url e u st) = Inr False) \<and>
   (\<exists>b. fst (validate_url e u st) = Inr b) \<and>
   trace (snd (validate_url e u st)) = trace st @ [Head u get_stealth_headers 10]"
  by (cases "http_head e (length (trace st)) u get_stealth_headers")
     (auto simp: validate_url_def requests_head_def)

theorem validate_url_spec_witness:
  "fst (validate_url sample_env ''https://acme-pharma.com/contact'' empty_state) = Inr True \<and>
   fst (validate_url sample_env ''https://acme-pharma.com/about'' empty_state) = Inr False \<and>
   fst (validate_url sample_env ''https://down.example'' empty_state) = Inr False"
proof -
  have h1: "http_head sample_env (length (trace empty_state)) ''https://acme-pharma.com/contact''
              get_stealth_headers = Inr 301"
    by (simp add: sample_env_def)
  have h2: "http_head sample_env (length (trace empty_state)) ''https://acme-pharma.com/about''
              get_stealth_headers = Inr 404"
    by (simp add: sample_env_def)
  have h3: "http_head sample_env (length (trace empty_state)) ''https://down.example''
              get_stealth_headers = Inl (RequestException ''Read timed out.'')"
    by (simp add: sample_env_def)
  from validate_url_spec [of sample_env empty_state "''https://acme-pharma.com/contact''" 301] h1
  have "fst (validate_url sample_env ''https://acme-pharma.com/contact'' empty_state) = Inr True"
    by simp
  moreover
  from validate_url_spec [of sample_env empty_state "''https://acme-pharma.com/about''" 404] h2
  have "fst (validate_url sample_env ''https://acme-pharma.com/about'' empty_state) = Inr False"
    by simp
  moreover
  from validate_url_spec [of sample_env empty_state "''https://down.example''" _ "RequestException ''Read timed out.''"] h3
  have "fst (validate_url sample_env ''https://down.example'' empty_state) = Inr False"
    by simp
  ultimately show ?thesis by simp
qed




text \<open>
  C8, as amended. Two runs that differ only in the stealth-mode toggle issue the same
  requests with the same headers, write the same files (dataset and log) and return the
  same records, from the scrape function and from the main block; and every request of a
  run carries the headers of \<open>get_stealth_headers\<close>. The printed lines are not part of this:
  the banner of the main block shows the toggle.
\<close>

theorem stealth_toggle_no_effect:
  "fst (scrape_10times_medical_pharma (cfg\<lparr>use_stealth_mode := b\<rparr>) e st) =
     fst (scrape_10times_medical_pharma cfg e st) \<and>
   trace (snd (scrape_10times_medical_pharma (cfg\<lparr>use_stealth_mode := b\<rparr>) e st)) =
     trace (snd (scrape_10times_medical_pharma cfg e st)) \<and>
   files (snd (scrape_10times_medical_pharma (cfg\<lparr>use_stealth_mode := b\<rparr>) e st)) =
     files (snd (scrape_10times_medical_pharma cfg e st)) \<and>
   fst (main (cfg\<lparr>use_stealth_mode := b\<rparr>) e st) = fst (main cfg e st) \<and>
   trace (snd (main (cfg\<lparr>use_stealth_mode := b\<rparr>) e st)) = trace (snd (main cfg e st)) \<and>
   files (snd (main (cfg\<lparr>use_stealth_mode := b\<rparr>) e st)) = files (snd (main cfg e st)) \<and>
   (list_all stealth_request (trace st) \<longrightarrow>
      list_all stealth_request (trace (snd (main cfg e st))))"
proof (intro conjI impI)
  have "same_io st st" by (simp add: same_io_def)
  from scrape_agree [OF this, where cfg = cfg and b = b and e = e]
  show "fst (scrape_10times_medical_pharma (cfg\<lparr>use_stealth_mode := b\<rparr>) e st) =
     fst (scrape_10times_medical_pharma cfg e st)"
    and "trace (snd (scrape_10times_medical_pharma (cfg\<lparr>use_stealth_mode := b\<rparr>) e st)) =
     trace (snd (scrape_10times_medical_pharma cfg e st))"
    and "files (snd (scrape_10times_medical_pharma (cfg\<lparr>use_stealth_mode := b\<rparr>) e st)) =
     files (snd (scrape_10times_medical_pharma cfg e st))"
    by (simp_all add: agree_def same_io_def)
next
  from main_agree [where cfg = cfg and b = b and e = e and st = st]
  show "fst (main (cfg\<lparr>use_stealth_mode := b\<rparr>) e st) = fst (main cfg e st)"
    and "trace (snd (main (cfg\<lparr>use_stealth_mode := b\<rparr>) e st)) = trace (snd (main cfg e st))"
    and "files (snd (main (cfg\<lparr>use_stealth_mode := b\<rparr>) e st)) = files (snd (main cfg e st))"
    by (simp_all add: agree_def same_io_def)
next
  assume "list_all stealth_request (trace st)"
  then show "list_all stealth_request (trace (snd (main cfg e st)))"
    using main_stealth [of st cfg e] by (simp add: stealth_only_def)
qed

text \<open>
  The claim as stated fails: the toggle is observable in the banner, which prints
  \<open>Stealth mode: True\<close> in one run and \<open>Stealth mode: False\<close> in the other.
\<close>

theorem stealth_toggle_counterexample:
  "''Stealth mode: True'' \<in>
     set (console (snd (main default_config (sample_listing_env 503) empty_state))) \<and>
   ''Stealth mode: True'' \<notin>
     set (console (snd (main (default_config\<lparr>use_stealth_mode := False\<rparr>)
                          (sample_listing_env 503) empty_state))) \<and>
   ''Stealth mode: False'' \<in>
     set (console (snd (main (default_config\<lparr>use_stealth_mode := False\<rparr>)
                          (sample_listing_env 503) empty_state)))"
proof -
  have f: "fetch_error (sample_listing_env 503) (length (trace empty_state)) listing_url
     get_stealth_headers =
     Some (HTTPError (''503 Server Error: Unknown for url: '' @ listing_url))"
    by (rule sample_listing_fetch)
  show ?thesis
    unfolding main_listing_failure [OF f]
    by (simp add: scrape_failed_def banner_def py_print_def
        default_config_def empty_state_def str_bool_def listing_url_def)
qed

text \<open>
  A run on a listing with one card, with the toggle on and off.
\<close>

theorem stealth_toggle_no_effect_witness:
  "list_all stealth_request (trace empty_state) \<and>
   list_all stealth_request
     (trace (snd (main default_config (sample_listing_env 200) empty_state))) \<and>
   fst (main (default_config\<lparr>use_stealth_mode := False\<rparr>) (sample_listing_env 200) empty_state) =
     fst (main default_config (sample_listing_env 200) empty_state) \<and>
   files (snd (main (default_config\<lparr>use_stealth_mode := False\<rparr>) (sample_listing_env 200)
                empty_state)) =
     files (snd (main default_config (sample_listing_env 200) empty_state))"
proof -
  have h: "list_all stealth_request (trace empty_state)"
    by (simp add: empty_state_def)
  from stealth_toggle_no_effect [where cfg = default_config and b = False
      and e = "sample_listing_env 200" and st = empty_state] h
  show ?thesis by blast
qed

text \<open>
  C9, as amended. When the fetch of the listing page raises, the scrape function returns the
  empty list and writes no file, and the main block ends normally, writes no file and prints
  the report of the failure and \<open>SCRAPING FAILED!\<close>. A fetch raises when the request
  raises or the status is from 400 to 599; a response with any other status, 2xx or not, is
  parsed and processed. A detail page whose fetch raises gives one record with \<open>N/A\<close>
  organizer fields, and the loop goes on with the next cards.
\<close>

theorem listing_fetch_failure:
  "(fetch_error e (length (trace st)) listing_url get_stealth_headers = Some ex \<longrightarrow>
      fst (scrape_10times_medical_pharma cfg e st) = Inr [] \<and>
      files (snd (scrape_10times_medical_pharma cfg e st)) = files st \<and>
      fst (main cfg e st) = Inr () \<and>
      files (snd (main cfg e st)) = files st \<and>
      failure_report ex \<in> set (console (snd (main cfg e st))) \<and>
      ''SCRAPING FAILED!'' \<in> set (console (snd (main cfg e st)))) \<and>
   (fetch_error e n u hs \<noteq> None \<longleftrightarrow>
      (case http_get e n u hs of
         Inl ex \<Rightarrow> True
       | Inr resp \<Rightarrow> 400 \<le> status_code resp \<and> status_code resp < 600)) \<and>
   (usable_event c hs name link \<and> fetch_error e (length (trace st)) link hs = Some ex \<longrightarrow>
      (\<exists>r entry.
         event_loop cfg e hs i (c # cards) (scraped, entries) st =
           event_loop cfg e hs (i + 1) cards (scraped @ [r], entries @ [entry])
             (after_failed_fetch link hs ex st) \<and>
         r ''organiser_name'' = Some ''N/A'' \<and> r ''organiser_website'' = Some ''N/A'' \<and>
         r ''organiser_email'' = Some ''N/A''))"
proof (intro conjI impI)
  assume a: "fetch_error e (length (trace st)) listing_url get_stealth_headers = Some ex"
  show "fst (scrape_10times_medical_pharma cfg e st) = Inr []"
    and "files (snd (scrape_10times_medical_pharma cfg e st)) = files st"
    by (simp_all add: scrape_listing_failure [OF a] scrape_failed_props)
  show "fst (main cfg e st) = Inr ()"
    and "files (snd (main cfg e st)) = files st"
    and "failure_report ex \<in> set (console (snd (main cfg e st)))"
    and "''SCRAPING FAILED!'' \<in> set (console (snd (main cfg e st)))"
    by (simp_all add: main_listing_failure [OF a] scrape_failed_props py_print_def banner_props)
next
  show "fetch_error e n u hs \<noteq> None \<longleftrightarrow>
      (case http_get e n u hs of
         Inl ex \<Rightarrow> True
       | Inr resp \<Rightarrow> 400 \<le> status_code resp \<and> status_code resp < 600)"
    by (auto simp: fetch_error_def raise_for_status_def split: sum.splits)
next
  assume a: "usable_event c hs name link \<and> fetch_error e (length (trace st)) link hs = Some ex"
  then obtain d where
    p: "process_event cfg e hs i c (scraped, entries) st =
       ((None, (scraped @ [failed_record d ex], entries @ [failed_entry i name ex])),
        after_failed_fetch link hs ex st)"
    using process_event_fetch_error by blast
  then have "event_loop cfg e hs i (c # cards) (scraped, entries) st =
           event_loop cfg e hs (i + 1) cards
             (scraped @ [failed_record d ex], entries @ [failed_entry i name ex])
             (after_failed_fetch link hs ex st)"
    by simp
  with failed_record_fields [of d ex]
  show "\<exists>r entry.
         event_loop cfg e hs i (c # cards) (scraped, entries) st =
           event_loop cfg e hs (i + 1) cards (scraped @ [r], entries @ [entry])
             (after_failed_fetch link hs ex st) \<and>
         r ''organiser_name'' = Some ''N/A'' \<and> r ''organiser_website'' = Some ''N/A'' \<and>
         r ''organiser_email'' = Some ''N/A''"
    by blast
qed

text \<open>
  The claim as stated fails for a status that is not 2xx and not an error: a listing page
  answered with status 300 is parsed, and its event is returned.
\<close>

theorem listing_fetch_failure_counterexample:
  "(\<exists>resp. http_get (sample_listing_env 300) 0 listing_url get_stealth_headers = Inr resp \<and>
      status_code resp = 300) \<and>
   (\<exists>r. fst (scrape_10times_medical_pharma default_config (sample_listing_env 300) empty_state) =
      Inr [r])"
proof -
  have "\<not> (400 \<le> (300::nat) \<and> (300::nat) < 600)" by simp
  from sample_scrape [OF this, of empty_state]
  show ?thesis by (auto simp: sample_listing_env_def)
qed

text \<open>
  A listing page answered with status 503, and a card whose detail page times out.
\<close>

theorem listing_fetch_failure_witness:
  "fetch_error (sample_listing_env 503) (length (trace empty_state)) listing_url
     get_stealth_headers =
     Some (HTTPError (''503 Server Error: Unknown for url: '' @ listing_url)) \<and>
   fst (scrape_10times_medical_pharma default_config (sample_listing_env 503) empty_state) = Inr [] \<and>
   fst (main default_config (sample_listing_env 503) empty_state) = Inr () \<and>
   files (snd (main default_config (sample_listing_env 503) empty_state)) = files empty_state \<and>
   ''SCRAPING FAILED!'' \<in>
     set (console (snd (main default_config (sample_listing_env 503) empty_state))) \<and>
   usable_event sample_card get_stealth_headers ''Bio Expo Boston''
     ''https://10times.com/bio-expo-boston'' \<and>
   (\<exists>r entry.
      event_loop default_config (sample_listing_env 200) get_stealth_headers 1
        [sample_card, sample_card] ([], []) empty_state =
      event_loop default_config (sample_listing_env 200) get_stealth_headers 2
        [sample_card] ([r], [entry])
        (after_failed_fetch ''https://10times.com/bio-expo-boston'' get_stealth_headers
           (RequestException ''Read timed out.'') empty_state) \<and>
      r ''organiser_website'' = Some ''N/A'')"
proof -
  have h0: "fetch_error (sample_listing_env 503) (length (trace empty_state)) listing_url
     get_stealth_headers =
     Some (HTTPError (''503 Server Error: Unknown for url: '' @ listing_url))"
    by (rule sample_listing_fetch)
  have h1: "usable_event sample_card get_stealth_headers ''Bio Expo Boston''
     ''https://10times.com/bio-expo-boston''"
    by (rule sample_card_usable)
  have h2: "fetch_error (sample_listing_env 200) (length (trace empty_state))
     ''https://10times.com/bio-expo-boston'' get_stealth_headers =
     Some (RequestException ''Read timed out.'')"
    by (rule sample_detail_fetch)
  from listing_fetch_failure [where e = "sample_listing_env 503" and st = empty_state
      and ex = "HTTPError (''503 Server Error: Unknown for url: '' @ listing_url)"
      and cfg = default_config] h0
  have a: "fst (scrape_10times_medical_pharma default_config (sample_listing_env 503) empty_state) = Inr [] \<and>
   fst (main default_config (sample_listing_env 503) empty_state) = Inr () \<and>
   files (snd (main default_config (sample_listing_env 503) empty_state)) = files empty_state \<and>
   ''SCRAPING FAILED!'' \<in>
     set (console (snd (main default_config (sample_listing_env 503) empty_state)))"
    by blast
  from listing_fetch_failure [where e = "sample_listing_env 200" and st = empty_state
      and ex = "RequestException ''Read timed out.''" and cfg = default_config
      and c = sample_card and hs = get_stealth_headers and name = "''Bio Expo Boston''"
      and link = "''https://10times.com/bio-expo-boston''" and i = 1 and cards = "[sample_card]"
      and scraped = "[]" and entries = "[]"] h1 h2
  have b: "\<exists>r entry.
      event_loop default_config (sample_listing_env 200) get_stealth_headers 1
        [sample_card, sample_card] ([], []) empty_state =
      event_loop default_config (sample_listing_env 200) get_stealth_headers 2
        [sample_card] ([r], [entry])
        (after_failed_fetch ''https://10times.com/bio-expo-boston'' get_stealth_headers
           (RequestException ''Read timed out.'') empty_state) \<and>
      r ''organiser_website'' = Some ''N/A''"
    by (simp add: numeral_2_eq_2 del: event_loop.simps) blast
  from h0 h1 a b show ?thesis by blast
qed

text \<open>
  C10. Method 3 passes over a contact link whose \<open>href\<close> is absent or starts with
  \<open>mailto:\<close>: the result is that of probing the other links among the first two only, so
  such a link is not joined to the event URL, not probed and not stored; when both of the
  first two links are of this kind, the record and the state are unchanged.
\<close>

theorem method3_skips:
  "method3 e event_url page info st =
     probe_links e event_url (filter (\<lambda>l. \<not> skipped l) (take 2 (contact_links page))) info st \<and>
   ((\<forall>l \<in> set (take 2 (contact_links page)). skipped l) \<longrightarrow>
      method3 e event_url page info st = ((None, info), st))"
proof
  show "method3 e event_url page info st =
     probe_links e event_url (filter (\<lambda>l. \<not> skipped l) (take 2 (contact_links page))) info st"
    unfolding method3_def by (rule probe_links_filter)
  show "(\<forall>l \<in> set (take 2 (contact_links page)). skipped l) \<longrightarrow>
      method3 e event_url page info st = ((None, info), st)"
  proof
    assume "\<forall>l \<in> set (take 2 (contact_links page)). skipped l"
    then have "filter (\<lambda>l. \<not> skipped l) (take 2 (contact_links page)) = []"
      by (simp add: filter_empty_conv)
    then show "method3 e event_url page info st = ((None, info), st)"
      unfolding method3_def by (subst probe_links_filter) simp
  qed
qed

theorem method3_skips_witness:
  "list_all skipped (take 2 (contact_links sample_contact_page)) \<and>
   method3 sample_env ''https://10times.com/bio-expo'' sample_contact_page
     initial_organizer_info empty_state = ((None, initial_organizer_info), empty_state)"
proof -
  have h: "\<forall>l \<in> set (take 2 (contact_links sample_contact_page)). skipped l"
    by (simp add: sample_contact_page_def skipped_def startswith_def)
  with method3_skips [of sample_env "''https://10times.com/bio-expo''" sample_contact_page
      initial_organizer_info empty_state]
  show ?thesis unfolding list_all_iff by blast
qed

end
